theory Spec2Isabelle
  imports Main "HOL-Library.AList"
begin

section \<open>Platform: JavaScript values, exceptions and localStorage\<close>

text \<open>
  The values that travel through \<^verbatim>\<open>JSON.stringify\<close> and \<^verbatim>\<open>JSON.parse\<close>.
  \<open>JNull\<close> also stands for \<^verbatim>\<open>undefined\<close> where a caller passes no collection.
\<close>

datatype jsval =
    JNull
  | JBool bool
  | JNum int
  | JStr string
  | JArr "jsval list"
  | JObj "(string \<times> jsval) list"

text \<open>JavaScript truthiness, as used by \<^verbatim>\<open>||\<close> and \<^verbatim>\<open>!\<close>: arrays and objects are always truthy.\<close>

fun truthy :: "jsval \<Rightarrow> bool" where
  "truthy JNull = False"
| "truthy (JBool b) = b"
| "truthy (JNum n) = (n \<noteq> 0)"
| "truthy (JStr s) = (s \<noteq> [])"
| "truthy (JArr xs) = True"
| "truthy (JObj kvs) = True"

definition js_or :: "jsval \<Rightarrow> jsval \<Rightarrow> jsval" where
  "js_or a b = (if truthy a then a else b)"

fun isArray :: "jsval \<Rightarrow> bool" where
  "isArray (JArr xs) = True"
| "isArray v = False"

datatype error = SyntaxError

text \<open>A computation that may throw: \<open>Inl\<close> is the thrown exception.\<close>

type_synonym 'a result = "error + 'a"

definition try_catch :: "'a result \<Rightarrow> (error \<Rightarrow> 'a result) \<Rightarrow> 'a result" where
  "try_catch body handler = (case body of Inl e \<Rightarrow> handler e | Inr v \<Rightarrow> Inr v)"

text \<open>
  \<^verbatim>\<open>JSON.parse\<close> and \<^verbatim>\<open>JSON.stringify\<close> are built into the platform, so the
  text codec is a parameter of every function that calls them: \<open>parse s = None\<close> means that
  \<^verbatim>\<open>JSON.parse\<close> throws a SyntaxError on the text \<open>s\<close>. The argument of
  \<^verbatim>\<open>JSON.parse\<close> is what \<^verbatim>\<open>getItem\<close> returned, a string or \<^verbatim>\<open>null\<close>;
  \<^verbatim>\<open>JSON.parse(null)\<close> converts its argument to the text \<^verbatim>\<open>null\<close> and returns
  \<^verbatim>\<open>null\<close>.
\<close>

type_synonym json_parser = "string \<Rightarrow> jsval option"
type_synonym json_printer = "jsval \<Rightarrow> string"

definition JSON_parse :: "json_parser \<Rightarrow> string option \<Rightarrow> jsval result" where
  "JSON_parse parse v =
     (case v of
        None \<Rightarrow> Inr JNull
      | Some s \<Rightarrow> (case parse s of None \<Rightarrow> Inl SyntaxError | Some j \<Rightarrow> Inr j))"

text \<open>
  \<^verbatim>\<open>localStorage\<close> is a list of key/value pairs of strings, in key order of insertion.
  It is taken to be available and unbounded: \<^verbatim>\<open>getItem\<close>, \<^verbatim>\<open>setItem\<close> and
  \<^verbatim>\<open>removeItem\<close> return normally.
\<close>

type_synonym localStorage = "(string \<times> string) list"

definition getItem :: "localStorage \<Rightarrow> string \<Rightarrow> string option" where
  "getItem ls k = map_of ls k"

definition setItem :: "localStorage \<Rightarrow> string \<Rightarrow> string \<Rightarrow> localStorage" where
  "setItem ls k v = AList.update k v ls"

definition removeItem :: "localStorage \<Rightarrow> string \<Rightarrow> localStorage" where
  "removeItem ls k = AList.delete k ls"

definition Object_keys :: "localStorage \<Rightarrow> string list" where
  "Object_keys ls = map fst ls"

definition startsWith :: "string \<Rightarrow> string \<Rightarrow> bool" where
  "startsWith s p = (take (length p) s = p)"


section \<open>utils/store.js\<close>

definition PREFIX :: string where
  "PREFIX = ''appStore:''"

definition keyFor :: "string \<Rightarrow> string" where
  "keyFor k = PREFIX @ k"

definition safeParse :: "json_parser \<Rightarrow> string option \<Rightarrow> jsval result" where
  "safeParse parse v = try_catch (JSON_parse parse v) (\<lambda>e. Inr JNull)"

definition clearAll :: "localStorage \<Rightarrow> localStorage" where
  "clearAll ls =
     foldl (\<lambda>s k. if k \<noteq> [] \<and> startsWith k PREFIX then removeItem s k else s)
       ls (Object_keys ls)"

definition storeProjects :: "json_printer \<Rightarrow> localStorage \<Rightarrow> jsval \<Rightarrow> localStorage" where
  "storeProjects stringify ls projects =
     setItem ls (keyFor ''projects'') (stringify (js_or projects (JArr [])))"

definition getProjects :: "json_parser \<Rightarrow> localStorage \<Rightarrow> jsval result" where
  "getProjects parse ls =
     try_catch
       (case safeParse parse (getItem ls (keyFor ''projects'')) of
          Inl e \<Rightarrow> Inl e
        | Inr r \<Rightarrow> Inr (js_or r JNull))
       (\<lambda>e. Inr JNull)"

definition clearProjects :: "localStorage \<Rightarrow> localStorage" where
  "clearProjects ls = removeItem ls (keyFor ''projects'')"

definition issuesKey :: "string \<Rightarrow> string" where
  "issuesKey projectFullPath = keyFor (''issues:'' @ projectFullPath)"

definition storeIssues :: "json_printer \<Rightarrow> localStorage \<Rightarrow> string \<Rightarrow> jsval \<Rightarrow> localStorage" where
  "storeIssues stringify ls projectFullPath issues =
     setItem ls (issuesKey projectFullPath) (stringify (js_or issues (JArr [])))"

definition getIssues :: "json_parser \<Rightarrow> localStorage \<Rightarrow> string \<Rightarrow> jsval result" where
  "getIssues parse ls projectFullPath =
     try_catch
       (case safeParse parse (getItem ls (issuesKey projectFullPath)) of
          Inl e \<Rightarrow> Inl e
        | Inr r \<Rightarrow> Inr (js_or r JNull))
       (\<lambda>e. Inr JNull)"

definition clearIssues :: "localStorage \<Rightarrow> string \<Rightarrow> localStorage" where
  "clearIssues ls projectFullPath = removeItem ls (issuesKey projectFullPath)"

definition timelogsKey :: "string \<Rightarrow> string" where
  "timelogsKey period = keyFor (''timelogs:'' @ period)"

definition storeTimeLogs :: "json_printer \<Rightarrow> localStorage \<Rightarrow> string \<Rightarrow> jsval \<Rightarrow> localStorage" where
  "storeTimeLogs stringify ls period timelogs =
     setItem ls (timelogsKey period) (stringify (js_or timelogs (JArr [])))"

definition getTimeLogs :: "json_parser \<Rightarrow> localStorage \<Rightarrow> string \<Rightarrow> jsval result" where
  "getTimeLogs parse ls period =
     try_catch
       (case safeParse parse (getItem ls (timelogsKey period)) of
          Inl e \<Rightarrow> Inl e
        | Inr r \<Rightarrow> Inr (js_or r JNull))
       (\<lambda>e. Inr JNull)"

definition clearTimeLogs :: "localStorage \<Rightarrow> string \<Rightarrow> localStorage" where
  "clearTimeLogs ls period = removeItem ls (timelogsKey period)"


section \<open>modules/auth.js and utils/favorites.js\<close>

definition AUTH_STORAGE_KEY :: string where
  "AUTH_STORAGE_KEY = ''userAuth''"

definition FAVORITES_KEY :: string where
  "FAVORITES_KEY = ''appFavorites''"

text \<open>
  \<open>timestamp\<close> is the text of \<^verbatim>\<open>new Date().toISOString()\<close> at the moment of the call.
  The guard \<^verbatim>\<open>store && typeof store.clearAll === "function"\<close> holds for the imported module.
\<close>

definition saveCredentials ::
  "json_printer \<Rightarrow> string \<Rightarrow> localStorage \<Rightarrow> string \<Rightarrow> string \<Rightarrow> string \<Rightarrow> localStorage" where
  "saveCredentials stringify timestamp ls username token repository =
     (let auth = JObj [(''username'', JStr username), (''token'', JStr token),
                       (''repository'', JStr repository), (''timestamp'', JStr timestamp)];
          ls1 = setItem ls AUTH_STORAGE_KEY (stringify auth)
      in clearAll ls1)"

definition clearCredentials :: "localStorage \<Rightarrow> localStorage" where
  "clearCredentials ls = removeItem ls AUTH_STORAGE_KEY"

definition saveFavorites :: "json_printer \<Rightarrow> localStorage \<Rightarrow> jsval \<Rightarrow> localStorage" where
  "saveFavorites stringify ls favorites = setItem ls FAVORITES_KEY (stringify favorites)"


section \<open>utils/gitlab.js: formatDuration\<close>

text \<open>Decimal rendering of a non-negative integer, as a template literal renders a number.\<close>

fun string_of_nat :: "nat \<Rightarrow> string" where
  "string_of_nat n =
     (if n < 10 then [''0123456789'' ! n]
      else string_of_nat (n div 10) @ [''0123456789'' ! (n mod 10)])"

declare string_of_nat.simps [simp del]

fun join :: "string \<Rightarrow> string list \<Rightarrow> string" where
  "join sep [] = []"
| "join sep [x] = x"
| "join sep (x # y # ys) = x @ sep @ join sep (y # ys)"

text \<open>
  \<open>seconds\<close> is an integer; \<^verbatim>\<open>!seconds\<close> is true exactly for zero. For a non-negative
  integer \<^verbatim>\<open>Math.floor(seconds / 3600)\<close> is \<open>seconds div 3600\<close> and \<^verbatim>\<open>%\<close> is \<open>mod\<close>.
\<close>

definition formatDuration :: "int \<Rightarrow> string" where
  "formatDuration seconds =
     (if seconds = 0 \<or> seconds < 0 then ''0m''
      else
        let hours = seconds div 3600;
            minutes = (seconds mod 3600) div 60;
            parts = [];
            parts = (if hours > 0 then parts @ [string_of_nat (nat hours) @ ''h''] else parts);
            parts = (if minutes > 0 then parts @ [string_of_nat (nat minutes) @ ''m''] else parts)
        in if length parts > 0 then join '' '' parts else ''0m'')"


section \<open>Platform: Date\<close>

text \<open>
  A \<^verbatim>\<open>Date\<close> is its time value, the milliseconds since 1970-01-01T00:00:00Z; only valid
  dates are modelled. Local time is UTC shifted by a fixed offset \<open>tz\<close>, in minutes east
  of Greenwich (what \<^verbatim>\<open>-getTimezoneOffset()\<close> returns); daylight saving changes of
  the offset are not modelled.
\<close>

type_synonym Date = int

definition msPerDay :: int where
  "msPerDay = 86400000"

definition LocalTime :: "int \<Rightarrow> Date \<Rightarrow> int" where
  "LocalTime tz t = t + tz * 60000"

definition UTC :: "int \<Rightarrow> int \<Rightarrow> Date" where
  "UTC tz t = t - tz * 60000"

definition Day :: "int \<Rightarrow> int" where
  "Day t = t div msPerDay"

text \<open>Day 0 is a Thursday; \<^verbatim>\<open>getDay\<close> counts Sunday as 0.\<close>

definition getDay :: "int \<Rightarrow> Date \<Rightarrow> int" where
  "getDay tz t = (Day (LocalTime tz t) + 4) mod 7"

text \<open>\<^verbatim>\<open>d.setHours(0, 0, 0, 0)\<close>: the start of \<open>d\<close>'s local day.\<close>

definition setHours0 :: "int \<Rightarrow> Date \<Rightarrow> Date" where
  "setHours0 tz t = UTC tz (Day (LocalTime tz t) * msPerDay)"

text \<open>\<^verbatim>\<open>d.setDate(d.getDate() + n)\<close>: the same local time of day, \<open>n\<close> days later.\<close>

definition addDays :: "Date \<Rightarrow> int \<Rightarrow> Date" where
  "addDays t n = t + n * msPerDay"

text \<open>
  \<^verbatim>\<open>d.toISOString().split("T")[0]\<close> is the calendar date of \<open>d\<close> in UTC, written
  \<^verbatim>\<open>YYYY-MM-DD\<close>. The text names the UTC day number and is named by it, and the program
  uses it only as a key that is compared for equality, so the key is kept as the day number.
\<close>

definition isoDate :: "Date \<Rightarrow> int" where
  "isoDate t = Day t"

text \<open>
  The proleptic Gregorian calendar: the day number of a civil date (month 1 to 12) and back.
  The year is counted from March, so that the leap day is its last day.
\<close>

definition daysBeforeYear :: "int \<Rightarrow> int" where
  "daysBeforeYear y = 365 * y + y div 4 - y div 100 + y div 400"

definition days_from_civil :: "int \<Rightarrow> int \<Rightarrow> int \<Rightarrow> int" where
  "days_from_civil y m d =
     (let y' = (if m \<le> 2 then y - 1 else y);
          mp = (if m > 2 then m - 3 else m + 9);
          doy = (153 * mp + 2) div 5 + d - 1
      in daysBeforeYear y' + doy - 719468)"

definition civil_from_days :: "int \<Rightarrow> int \<times> int \<times> int" where
  "civil_from_days z0 =
     (let z = z0 + 719468;
          era = z div 146097;
          doe = z mod 146097;
          yoe = (doe - doe div 1460 + doe div 36524 - doe div 146096) div 365;
          doy = doe - (365 * yoe + yoe div 4 - yoe div 100);
          mp = (5 * doy + 2) div 153;
          d = doy - (153 * mp + 2) div 5 + 1;
          m = (if mp < 10 then mp + 3 else mp - 9);
          y = yoe + era * 400 + (if m \<le> 2 then 1 else 0)
      in (y, m, d))"

definition getFullYear :: "int \<Rightarrow> Date \<Rightarrow> int" where
  "getFullYear tz t = fst (civil_from_days (Day (LocalTime tz t)))"

text \<open>\<^verbatim>\<open>getMonth\<close> counts January as 0.\<close>

definition getMonth :: "int \<Rightarrow> Date \<Rightarrow> int" where
  "getMonth tz t = fst (snd (civil_from_days (Day (LocalTime tz t)))) - 1"

definition getDate :: "int \<Rightarrow> Date \<Rightarrow> int" where
  "getDate tz t = snd (snd (civil_from_days (Day (LocalTime tz t))))"

text \<open>
  \<^verbatim>\<open>MakeDay\<close> lets the month run over into the neighbouring years and the day of the month
  over into the neighbouring months, so that day 0 is the last day of the month before.
\<close>

definition MakeDay :: "int \<Rightarrow> int \<Rightarrow> int \<Rightarrow> int" where
  "MakeDay year month dt = days_from_civil (year + month div 12) (month mod 12 + 1) 1 + dt - 1"

text \<open>\<^verbatim>\<open>new Date(year, month, day)\<close>: local midnight; a year from 0 to 99 means 1900 + year.\<close>

definition newDate :: "int \<Rightarrow> int \<Rightarrow> int \<Rightarrow> int \<Rightarrow> Date" where
  "newDate tz year month dt =
     (let yr = (if 0 \<le> year \<and> year \<le> 99 then 1900 + year else year)
      in UTC tz (MakeDay yr month dt * msPerDay))"

fun string_of_int :: "int \<Rightarrow> string" where
  "string_of_int i = (if i < 0 then ''-'' @ string_of_nat (nat (- i)) else string_of_nat (nat i))"

text \<open>\<^verbatim>\<open>s.padStart(2, "0")\<close>\<close>

definition padStart2 :: "string \<Rightarrow> string" where
  "padStart2 s = replicate (2 - length s) (CHR ''0'') @ s"


section \<open>modules/app.js: grouping time logs\<close>

record timelog =
  log_id :: string
  spentAt :: Date
  timeSpent :: int

record weekGroup =
  weekStart :: Date
  logs :: "timelog list"
  totalSeconds :: int

record dayGroup =
  date :: Date
  day_logs :: "timelog list"
  day_totalSeconds :: int

definition getWeekKey :: "int \<Rightarrow> Date \<Rightarrow> int" where
  "getWeekKey tz dt =
     (let d = setHours0 tz dt;
          day = getDay tz d;
          daysToSubtract = (if day = 0 then 6 else day - 1);
          monday = addDays d (- daysToSubtract)
      in isoDate monday)"

definition firstDayOfMonth :: "int \<Rightarrow> Date \<Rightarrow> Date" where
  "firstDayOfMonth tz ref = newDate tz (getFullYear tz ref) (getMonth tz ref) 1"

definition lastDayOfMonth :: "int \<Rightarrow> Date \<Rightarrow> Date" where
  "lastDayOfMonth tz ref = newDate tz (getFullYear tz ref) (getMonth tz ref + 1) 0"

text \<open>
  The object \<^verbatim>\<open>weeks\<close> is a list of key/bucket pairs in order of insertion, which is the
  order \<^verbatim>\<open>Object.values\<close> lists them in. The loop that pre-seeds the weeks:
\<close>

function seedWeeks ::
  "Date \<Rightarrow> Date \<Rightarrow> Date \<Rightarrow> (int \<times> weekGroup) list \<Rightarrow> (int \<times> weekGroup) list" where
  "seedWeeks lastDay now currentWeekStart weeks =
     (if currentWeekStart \<le> lastDay \<and> currentWeekStart \<le> now
      then seedWeeks lastDay now (addDays currentWeekStart 7)
             (AList.update (isoDate currentWeekStart)
                \<lparr>weekStart = currentWeekStart, logs = [], totalSeconds = 0\<rparr> weeks)
      else weeks)"
  by pat_completeness auto
termination
  by (relation "measure (\<lambda>(lastDay, now, c, weeks). nat (lastDay - c + 1))")
     (auto simp: addDays_def msPerDay_def)

declare seedWeeks.simps [simp del]

text \<open>The body of \<^verbatim>\<open>timeLogs.forEach\<close>; the state is the object \<^verbatim>\<open>weeks\<close> and \<^verbatim>\<open>total\<close>.\<close>

definition addLog ::
  "int \<Rightarrow> (int \<times> weekGroup) list \<times> nat \<Rightarrow> timelog \<Rightarrow> (int \<times> weekGroup) list \<times> nat" where
  "addLog tz st log =
     (let weeks = fst st;
          total = snd st;
          weekKey = getWeekKey tz (spentAt log)
      in case map_of weeks weekKey of
           None \<Rightarrow> st
         | Some w \<Rightarrow>
             (AList.update weekKey
                (w\<lparr>logs := logs w @ [log], totalSeconds := totalSeconds w + timeSpent log\<rparr>)
                weeks,
              total + 1))"

text \<open>
  \<open>clock\<close> is the reading of \<^verbatim>\<open>new Date()\<close>. The result is the sorted array the function
  returns and the count it writes into the page.
\<close>

definition groupTimeLogsByWeek_run ::
  "int \<Rightarrow> Date \<Rightarrow> timelog list \<Rightarrow> Date \<Rightarrow> weekGroup list \<times> nat" where
  "groupTimeLogsByWeek_run tz clock timeLogs periodDate =
     (let first = firstDayOfMonth tz periodDate;
          lastDay = lastDayOfMonth tz periodDate;
          currentWeekStart = first;
          dayOfWeek = getDay tz currentWeekStart;
          daysToSubtract = (if dayOfWeek = 0 then 6 else dayOfWeek - 1);
          currentWeekStart = addDays currentWeekStart (- daysToSubtract);
          now = setHours0 tz clock;
          weeks = seedWeeks lastDay now currentWeekStart [];
          st = foldl (addLog tz) (weeks, 0) timeLogs
      in (sort_key (\<lambda>w. - weekStart w) (map snd (fst st)), snd st))"

definition groupTimeLogsByWeek :: "int \<Rightarrow> Date \<Rightarrow> timelog list \<Rightarrow> Date \<Rightarrow> weekGroup list" where
  "groupTimeLogsByWeek tz clock timeLogs periodDate =
     fst (groupTimeLogsByWeek_run tz clock timeLogs periodDate)"

text \<open>
  \<^verbatim>\<open>loadTimeLogs\<close> groups the logs of each week by day: the body of
  \<^verbatim>\<open>weekGroup.logs.forEach\<close>, the object \<^verbatim>\<open>logsByDay\<close> it builds and the sorted days.
\<close>

definition addToDay :: "(int \<times> dayGroup) list \<Rightarrow> timelog \<Rightarrow> (int \<times> dayGroup) list" where
  "addToDay logsByDay log =
     (let dayKey = isoDate (spentAt log);
          logsByDay =
            (case map_of logsByDay dayKey of
               None \<Rightarrow>
                 AList.update dayKey
                   \<lparr>date = spentAt log, day_logs = [], day_totalSeconds = 0\<rparr> logsByDay
             | Some g \<Rightarrow> logsByDay)
      in AList.map_entry dayKey
           (\<lambda>g. g\<lparr>day_logs := day_logs g @ [log],
                  day_totalSeconds := day_totalSeconds g + timeSpent log\<rparr>)
           logsByDay)"

definition logsByDay :: "weekGroup \<Rightarrow> (int \<times> dayGroup) list" where
  "logsByDay weekGroup = foldl addToDay [] (logs weekGroup)"

definition sortedDays :: "weekGroup \<Rightarrow> dayGroup list" where
  "sortedDays weekGroup = sort_key date (map snd (logsByDay weekGroup))"


section \<open>modules/log-crud.js: deleting a time log\<close>

text \<open>
  \<^verbatim>\<open>new Date(text)\<close> for the date-only form \<^verbatim>\<open>YYYY-MM-DD\<close>, which is what the modal's date
  input holds: the platform reads this form as midnight UTC of that date. Any other text is
  an invalid date here, \<open>None\<close>.
\<close>

definition digitValue :: "char \<Rightarrow> nat option" where
  "digitValue c =
     (let n = (of_char c :: nat) in if 48 \<le> n \<and> n \<le> 57 then Some (n - 48) else None)"

fun digitsValue :: "string \<Rightarrow> nat \<Rightarrow> nat option" where
  "digitsValue [] acc = Some acc"
| "digitsValue (c # cs) acc =
     (case digitValue c of None \<Rightarrow> None | Some d \<Rightarrow> digitsValue cs (10 * acc + d))"

definition Date_parse :: "string \<Rightarrow> Date option" where
  "Date_parse s =
     (if length s = 10 \<and> s ! 4 = CHR ''-'' \<and> s ! 7 = CHR ''-''
      then (case (digitsValue (take 4 s) 0, digitsValue (take 2 (drop 5 s)) 0,
                  digitsValue (drop 8 s) 0) of
              (Some y, Some m, Some d) \<Rightarrow>
                if 1 \<le> m \<and> m \<le> 12 \<and> 1 \<le> d \<and> d \<le> 31
                then Some (days_from_civil (int y) (int m) (int d) * msPerDay)
                else None
            | _ \<Rightarrow> None)
      else None)"

text \<open>
  The part of the page the delete flow reads and writes: the value of the date input
  \<^verbatim>\<open>newLogDate\<close> and the module variable \<^verbatim>\<open>_currentTimelogId\<close>.
\<close>

record modalState =
  newLogDate :: string
  currentTimelogId :: "string option"

definition resetModalState :: "modalState \<Rightarrow> modalState" where
  "resetModalState modal = modal\<lparr>newLogDate := [], currentTimelogId := None\<rparr>"

definition hideNewLogModal :: "modalState \<Rightarrow> modalState" where
  "hideNewLogModal modal = resetModalState modal"

definition openDeleteTimelogModal :: "int \<Rightarrow> modalState \<Rightarrow> timelog \<Rightarrow> modalState" where
  "openDeleteTimelogModal tz modal log =
     (let modal = modal\<lparr>currentTimelogId := Some (log_id log)\<rparr>;
          d = spentAt log;
          yyyy = string_of_int (getFullYear tz d);
          mm = padStart2 (string_of_int (getMonth tz d + 1));
          dd = padStart2 (string_of_int (getDate tz d))
      in modal\<lparr>newLogDate := yyyy @ ''-'' @ mm @ ''-'' @ dd\<rparr>)"

text \<open>
  The period key the handlers build from the text of the date input; the fields of an
  invalid date are \<^verbatim>\<open>NaN\<close>.
\<close>

definition periodKeyOf :: "int \<Rightarrow> string \<Rightarrow> string" where
  "periodKeyOf tz text =
     (case Date_parse text of
        None \<Rightarrow> ''NaN-NaN''
      | Some d \<Rightarrow> string_of_int (getFullYear tz d) @ ''-'' @
                  padStart2 (string_of_int (getMonth tz d + 1)))"

text \<open>
  \<open>deleted\<close> tells whether \<^verbatim>\<open>gitlabAPI.deleteTimeLog\<close> returned or threw. The result is
  the storage, the modal state and the event dispatched, if any.
\<close>

definition handleDeleteTimelog ::
  "int \<Rightarrow> bool \<Rightarrow> localStorage \<times> modalState \<Rightarrow> localStorage \<times> modalState \<times> string option" where
  "handleDeleteTimelog tz deleted st =
     (let ls = fst st; modal = snd st in
      if (case currentTimelogId modal of None \<Rightarrow> True | Some i \<Rightarrow> i = [])
      then (ls, modal, None)
      else if deleted
      then
        (let modal = hideNewLogModal modal;
             dateInputValue = newLogDate modal;
             ls = (if dateInputValue \<noteq> []
                   then clearTimeLogs ls (periodKeyOf tz dateInputValue)
                   else ls)
         in (ls, modal\<lparr>currentTimelogId := None\<rparr>, Some ''timeLogDeleted''))
      else (ls, modal\<lparr>currentTimelogId := None\<rparr>, None))"


section \<open>Notions used in the statements\<close>

subsection \<open>A sample of the platform codec\<close>

text \<open>
  \<^verbatim>\<open>JSON.parse\<close> and \<^verbatim>\<open>JSON.stringify\<close> restricted to the few texts and values that the
  worked examples below store and read. On these they agree with the platform; the one
  further text the examples use, \<^verbatim>\<open>{oops\<close>, is not in the table and is rejected by
  \<^verbatim>\<open>JSON.parse\<close> as well.
\<close>

definition sample_parse :: json_parser where
  "sample_parse s =
     map_of [(''null'', JNull), (''[]'', JArr []), (''[1]'', JArr [JNum 1]),
             (''[1,2]'', JArr [JNum 1, JNum 2])] s"

definition sample_stringify :: json_printer where
  "sample_stringify v =
     (if v = JArr [] then ''[]''
      else if v = JArr [JNum 1] then ''[1]''
      else if v = JArr [JNum 1, JNum 2] then ''[1,2]''
      else ''null'')"

subsection \<open>What a getter returns\<close>

text \<open>
  The three getters share one body. What it returns depends only on the text stored under
  the key: \<^verbatim>\<open>null\<close> for no text, for a text that does not parse and for a text that parses
  to a falsy value, and the parsed value otherwise.
\<close>

definition readCached :: "json_parser \<Rightarrow> string option \<Rightarrow> jsval" where
  "readCached parse v =
     (case v of
        None \<Rightarrow> JNull
      | Some s \<Rightarrow> (case parse s of None \<Rightarrow> JNull | Some j \<Rightarrow> js_or j JNull))"

subsection \<open>Local days and weeks\<close>

text \<open>
  The number of the local day an instant falls in, and the instant a local day starts at.
\<close>

definition localDay :: "int \<Rightarrow> Date \<Rightarrow> int" where
  "localDay tz t = Day (LocalTime tz t)"

definition atLocalDay :: "int \<Rightarrow> int \<Rightarrow> Date" where
  "atLocalDay tz d = UTC tz (d * msPerDay)"

text \<open>The Monday on or before day \<open>d\<close>, and the start of the Monday-to-Sunday week of an instant.\<close>

definition mondayDay :: "int \<Rightarrow> int" where
  "mondayDay d = d - (d + 3) mod 7"

definition weekStartOf :: "int \<Rightarrow> Date \<Rightarrow> Date" where
  "weekStartOf tz t = atLocalDay tz (mondayDay (localDay tz t))"

text \<open>A week start is a local midnight on a Monday.\<close>

definition isWeekStart :: "int \<Rightarrow> Date \<Rightarrow> bool" where
  "isWeekStart tz W = (setHours0 tz W = W \<and> getDay tz W = 1)"

text \<open>
  The week that starts at \<open>W\<close> intersects the interval from \<open>a\<close> to \<open>b\<close> when one of its
  instants lies in the interval; an interval with \<open>b < a\<close> is empty.
\<close>

definition weekIntersects :: "Date \<Rightarrow> Date \<Rightarrow> Date \<Rightarrow> bool" where
  "weekIntersects W a b = (\<exists>d. W \<le> d \<and> d < addDays W 7 \<and> a \<le> d \<and> d \<le> b)"

subsection \<open>The pre-seeded weeks and their contents\<close>

text \<open>The week starts from \<open>c\<close> up to \<open>b\<close>, seven days apart: what the seeding loop walks through.\<close>

function weekStartsFrom :: "Date \<Rightarrow> Date \<Rightarrow> Date list" where
  "weekStartsFrom b c = (if c \<le> b then c # weekStartsFrom b (addDays c 7) else [])"
  by pat_completeness auto
termination
  by (relation "measure (\<lambda>(b, c). nat (b - c + 1))") (auto simp: addDays_def msPerDay_def)

declare weekStartsFrom.simps [simp del]

definition seededWeekStarts :: "int \<Rightarrow> Date \<Rightarrow> Date \<Rightarrow> Date list" where
  "seededWeekStarts tz clock ref =
     weekStartsFrom (min (lastDayOfMonth tz ref) (setHours0 tz clock))
       (weekStartOf tz (firstDayOfMonth tz ref))"

definition emptyWeek :: "Date \<Rightarrow> weekGroup" where
  "emptyWeek W = \<lparr>weekStart = W, logs = [], totalSeconds = 0\<rparr>"

text \<open>The logs whose week key is \<open>k\<close>, and a bucket after these logs were added to it.\<close>

definition weekLogs :: "int \<Rightarrow> timelog list \<Rightarrow> int \<Rightarrow> timelog list" where
  "weekLogs tz ls k = filter (\<lambda>e. getWeekKey tz (spentAt e) = k) ls"

definition fillWeek :: "int \<Rightarrow> timelog list \<Rightarrow> int \<times> weekGroup \<Rightarrow> int \<times> weekGroup" where
  "fillWeek tz ls kw =
     (fst kw, (snd kw)\<lparr>logs := logs (snd kw) @ weekLogs tz ls (fst kw),
                       totalSeconds := totalSeconds (snd kw)
                          + sum_list (map timeSpent (weekLogs tz ls (fst kw)))\<rparr>)"

definition filledWeek :: "int \<Rightarrow> timelog list \<Rightarrow> Date \<Rightarrow> weekGroup" where
  "filledWeek tz ls W =
     \<lparr>weekStart = W, logs = weekLogs tz ls (isoDate W),
      totalSeconds = sum_list (map timeSpent (weekLogs tz ls (isoDate W)))\<rparr>"

text \<open>The logs of a day, and what the day grouping maintains while it runs through a week's logs.\<close>

definition dayLogs :: "timelog list \<Rightarrow> int \<Rightarrow> timelog list" where
  "dayLogs ls k = filter (\<lambda>e. isoDate (spentAt e) = k) ls"

definition dayInv :: "(int \<times> dayGroup) list \<Rightarrow> timelog list \<Rightarrow> bool" where
  "dayInv acc xs =
     (distinct (map fst acc) \<and>
      (\<forall>k. map_option day_logs (map_of acc k)
             = (if dayLogs xs k = [] then None else Some (dayLogs xs k))))"


section \<open>Properties of the cache store\<close>

subsection \<open>localStorage as a map\<close>

lemma getItem_setItem:
  "getItem (setItem ls k v) k' = (if k' = k then Some v else getItem ls k')"
  by (simp add: getItem_def setItem_def update_conv')

lemma getItem_removeItem:
  "getItem (removeItem ls k) k' = (if k' = k then None else getItem ls k')"
  by (simp add: getItem_def removeItem_def delete_conv')

lemma removeItem_filter: "removeItem ls k = filter (\<lambda>kv. fst kv \<noteq> k) ls"
  by (induction ls) (auto simp: removeItem_def)

lemma getItem_filter_keys:
  "getItem (filter (\<lambda>kv. P (fst kv)) ls) k = (if P k then getItem ls k else None)"
  by (induction ls) (auto simp: getItem_def)

subsection \<open>Keys\<close>

lemma startsWith_keyFor: "startsWith (keyFor k) PREFIX"
  by (simp add: startsWith_def keyFor_def)

lemma startsWith_PREFIX_nonempty: "startsWith k PREFIX \<Longrightarrow> k \<noteq> []"
  by (auto simp: startsWith_def PREFIX_def)

lemma issuesKey_inj: "issuesKey p = issuesKey q \<longleftrightarrow> p = q"
  by (simp add: issuesKey_def keyFor_def)

lemma timelogsKey_inj: "timelogsKey p = timelogsKey q \<longleftrightarrow> p = q"
  by (simp add: timelogsKey_def keyFor_def)

lemma issuesKey_not_projects: "issuesKey p \<noteq> keyFor ''projects''"
  by (simp add: issuesKey_def keyFor_def)

lemma timelogsKey_not_projects: "timelogsKey m \<noteq> keyFor ''projects''"
  by (simp add: timelogsKey_def keyFor_def)

lemma timelogsKey_not_issuesKey: "timelogsKey m \<noteq> issuesKey p"
  by (simp add: timelogsKey_def issuesKey_def keyFor_def)

lemma AUTH_not_cache:
  "\<not> startsWith AUTH_STORAGE_KEY PREFIX"
  "AUTH_STORAGE_KEY \<noteq> keyFor k"
  "keyFor k \<noteq> AUTH_STORAGE_KEY"
  by (simp_all add: startsWith_def AUTH_STORAGE_KEY_def PREFIX_def keyFor_def)

lemma FAV_not_cache:
  "\<not> startsWith FAVORITES_KEY PREFIX"
  "FAVORITES_KEY \<noteq> keyFor k"
  "FAVORITES_KEY \<noteq> AUTH_STORAGE_KEY"
  by (simp_all add: startsWith_def FAVORITES_KEY_def PREFIX_def keyFor_def AUTH_STORAGE_KEY_def)

subsection \<open>clearAll as a filter\<close>

lemma clearAll_loop:
  "foldl (\<lambda>s k. if k \<noteq> [] \<and> startsWith k PREFIX then removeItem s k else s) s ks
     = filter (\<lambda>kv. \<not> (fst kv \<in> set ks \<and> fst kv \<noteq> [] \<and> startsWith (fst kv) PREFIX)) s"
proof (induction ks arbitrary: s)
  case Nil
  then show ?case by simp
next
  case (Cons k ks)
  show ?case
    by (auto simp: Cons.IH removeItem_filter intro!: filter_cong)
qed

lemma clearAll_filter: "clearAll ls = filter (\<lambda>kv. \<not> startsWith (fst kv) PREFIX) ls"
  unfolding clearAll_def clearAll_loop Object_keys_def
  by (rule filter_cong) (auto dest: startsWith_PREFIX_nonempty)

lemma getItem_clearAll:
  "getItem (clearAll ls) k = (if startsWith k PREFIX then None else getItem ls k)"
  using getItem_filter_keys [where P = "\<lambda>k. \<not> startsWith k PREFIX" and ls = ls and k = k]
  by (simp add: clearAll_filter)

lemma getItem_saveCredentials:
  "getItem (saveCredentials stringify ts ls u t r) k =
     (if startsWith k PREFIX then None
      else if k = AUTH_STORAGE_KEY
        then Some (stringify (JObj [(''username'', JStr u), (''token'', JStr t),
                       (''repository'', JStr r), (''timestamp'', JStr ts)]))
      else getItem ls k)"
  by (simp add: saveCredentials_def Let_def getItem_clearAll getItem_setItem)

subsection \<open>What a getter returns\<close>

lemma getter_body:
  "try_catch
       (case safeParse parse v of Inl e \<Rightarrow> Inl e | Inr r \<Rightarrow> Inr (js_or r JNull))
       (\<lambda>e. Inr JNull) = Inr (readCached parse v)"
  by (simp add: readCached_def safeParse_def try_catch_def JSON_parse_def js_or_def
       split: option.splits sum.splits)

lemma getProjects_read:
  "getProjects parse ls = Inr (readCached parse (getItem ls (keyFor ''projects'')))"
  unfolding getProjects_def by (rule getter_body)

lemma getIssues_read:
  "getIssues parse ls p = Inr (readCached parse (getItem ls (issuesKey p)))"
  unfolding getIssues_def by (rule getter_body)

lemma getTimeLogs_read:
  "getTimeLogs parse ls m = Inr (readCached parse (getItem ls (timelogsKey m)))"
  unfolding getTimeLogs_def by (rule getter_body)

lemmas getters_read = getProjects_read getIssues_read getTimeLogs_read

lemma readCached_array: "isArray v \<Longrightarrow> parse s = Some v \<Longrightarrow> readCached parse (Some s) = v"
  by (cases v) (simp_all add: readCached_def js_or_def)

lemma js_or_array: "isArray v \<Longrightarrow> js_or v d = v"
  by (cases v) (simp_all add: js_or_def)


subsection \<open>Saving credentials wipes the cache\<close>

text \<open>
  C4. After \<open>saveCredentials\<close> has stored the new credential record, the three getters
  return \<^verbatim>\<open>null\<close>: the project list, the issues of every project path and the time
  entries of every period, whatever was cached before and whatever the codec is.
\<close>

theorem saveCredentials_clears_cache:
  "getProjects parse (saveCredentials stringify ts ls u t r) = Inr JNull
   \<and> (\<forall>p. getIssues parse (saveCredentials stringify ts ls u t r) p = Inr JNull)
   \<and> (\<forall>m. getTimeLogs parse (saveCredentials stringify ts ls u t r) m = Inr JNull)"
  by (simp add: getters_read getItem_saveCredentials startsWith_keyFor issuesKey_def
        timelogsKey_def readCached_def)


subsection \<open>Clearing credentials leaves the cache alone\<close>

text \<open>
  C5 as stated fails: \<open>clearCredentials\<close> removes the credential record and nothing else.
  With a project list cached, the project getter still returns that list after the
  credentials have been cleared.
\<close>

theorem clearCredentials_cache_survives:
  "getProjects sample_parse
     (clearCredentials [(AUTH_STORAGE_KEY, ''{}''), (keyFor ''projects'', ''[1]'')])
   = Inr (JArr [JNum 1])"
  by (simp add: getProjects_read clearCredentials_def removeItem_def getItem_def
        AUTH_STORAGE_KEY_def keyFor_def PREFIX_def readCached_def sample_parse_def js_or_def)

text \<open>
  C5, amended. \<open>clearCredentials\<close> removes the credential record and leaves every cached
  collection as it was: each getter returns after the call what it returned before it.
  The cache is wiped by the next \<open>saveCredentials\<close> (C4).
\<close>

theorem clearCredentials_keeps_cache:
  "getItem (clearCredentials ls) AUTH_STORAGE_KEY = None
   \<and> getProjects parse (clearCredentials ls) = getProjects parse ls
   \<and> (\<forall>p. getIssues parse (clearCredentials ls) p = getIssues parse ls p)
   \<and> (\<forall>m. getTimeLogs parse (clearCredentials ls) m = getTimeLogs parse ls m)"
  by (simp add: getters_read clearCredentials_def getItem_removeItem issuesKey_def
        timelogsKey_def AUTH_not_cache)


subsection \<open>Getters never throw\<close>

text \<open>
  C6. For every codec, storage state and key, each cache getter returns a value (it never
  throws); it returns \<^verbatim>\<open>null\<close> when no text is stored under the key, and it returns
  \<^verbatim>\<open>null\<close> when the stored text makes \<^verbatim>\<open>JSON.parse\<close> throw, so that a malformed
  payload cannot be told from a miss.
\<close>

theorem cache_getters_never_throw:
  "(\<exists>v. getProjects parse ls = Inr v) \<and> (\<exists>v. getIssues parse ls p = Inr v)
   \<and> (\<exists>v. getTimeLogs parse ls m = Inr v)
   \<and> (getItem ls (keyFor ''projects'') = None \<longrightarrow> getProjects parse ls = Inr JNull)
   \<and> (getItem ls (issuesKey p) = None \<longrightarrow> getIssues parse ls p = Inr JNull)
   \<and> (getItem ls (timelogsKey m) = None \<longrightarrow> getTimeLogs parse ls m = Inr JNull)
   \<and> (\<forall>s. getItem ls (keyFor ''projects'') = Some s \<and> parse s = None
          \<longrightarrow> getProjects parse ls = Inr JNull)
   \<and> (\<forall>s. getItem ls (issuesKey p) = Some s \<and> parse s = None
          \<longrightarrow> getIssues parse ls p = Inr JNull)
   \<and> (\<forall>s. getItem ls (timelogsKey m) = Some s \<and> parse s = None
          \<longrightarrow> getTimeLogs parse ls m = Inr JNull)"
  by (auto simp: getters_read readCached_def)

text \<open>The empty storage misses on every key; a storage holding \<^verbatim>\<open>{oops\<close> is malformed on each.\<close>

theorem cache_getters_never_throw_witness:
  "getItem [] (keyFor ''projects'') = None
   \<and> getItem [] (issuesKey ''a/b'') = None
   \<and> getItem [] (timelogsKey ''2024-03'') = None
   \<and> getProjects sample_parse [] = Inr JNull
   \<and> getIssues sample_parse [] ''a/b'' = Inr JNull
   \<and> getTimeLogs sample_parse [] ''2024-03'' = Inr JNull
   \<and> getItem [(keyFor ''projects'', ''{oops''), (issuesKey ''a/b'', ''{oops''),
               (timelogsKey ''2024-03'', ''{oops'')] (keyFor ''projects'') = Some ''{oops''
   \<and> getItem [(keyFor ''projects'', ''{oops''), (issuesKey ''a/b'', ''{oops''),
               (timelogsKey ''2024-03'', ''{oops'')] (issuesKey ''a/b'') = Some ''{oops''
   \<and> getItem [(keyFor ''projects'', ''{oops''), (issuesKey ''a/b'', ''{oops''),
               (timelogsKey ''2024-03'', ''{oops'')] (timelogsKey ''2024-03'') = Some ''{oops''
   \<and> sample_parse ''{oops'' = None
   \<and> getProjects sample_parse [(keyFor ''projects'', ''{oops''), (issuesKey ''a/b'', ''{oops''),
               (timelogsKey ''2024-03'', ''{oops'')] = Inr JNull
   \<and> getIssues sample_parse [(keyFor ''projects'', ''{oops''), (issuesKey ''a/b'', ''{oops''),
               (timelogsKey ''2024-03'', ''{oops'')] ''a/b'' = Inr JNull
   \<and> getTimeLogs sample_parse [(keyFor ''projects'', ''{oops''), (issuesKey ''a/b'', ''{oops''),
               (timelogsKey ''2024-03'', ''{oops'')] ''2024-03'' = Inr JNull"
proof -
  let ?bad = "[(keyFor ''projects'', ''{oops''), (issuesKey ''a/b'', ''{oops''),
               (timelogsKey ''2024-03'', ''{oops'')]"
  have miss: "getItem [] (keyFor ''projects'') = None" "getItem [] (issuesKey ''a/b'') = None"
    "getItem [] (timelogsKey ''2024-03'') = None"
    by (simp_all add: getItem_def)
  have bad: "getItem ?bad (keyFor ''projects'') = Some ''{oops''"
    "getItem ?bad (issuesKey ''a/b'') = Some ''{oops''"
    "getItem ?bad (timelogsKey ''2024-03'') = Some ''{oops''"
    by (simp_all add: getItem_def keyFor_def issuesKey_def timelogsKey_def)
  have rej: "sample_parse ''{oops'' = None"
    by (simp add: sample_parse_def)
  from cache_getters_never_throw [of sample_parse "[]" "''a/b''" "''2024-03''"] miss
  have a: "getProjects sample_parse [] = Inr JNull \<and> getIssues sample_parse [] ''a/b'' = Inr JNull
     \<and> getTimeLogs sample_parse [] ''2024-03'' = Inr JNull"
    by blast
  from cache_getters_never_throw [of sample_parse ?bad "''a/b''" "''2024-03''"] bad rej
  have b: "getProjects sample_parse ?bad = Inr JNull \<and> getIssues sample_parse ?bad ''a/b'' = Inr JNull
     \<and> getTimeLogs sample_parse ?bad ''2024-03'' = Inr JNull"
    by blast
  from miss bad rej a b show ?thesis by simp
qed


subsection \<open>Store then read\<close>

text \<open>
  C8. A value \<open>v\<close> is JSON-representable when parsing its serialisation gives \<open>v\<close> back.
  For every such array and every key, storing it and reading the same kind and key at once
  returns \<open>v\<close>: neither \<^verbatim>\<open>|| []\<close> on the way in nor \<^verbatim>\<open>|| null\<close> on the way out
  replaces an array, not even the empty one.
\<close>

theorem cache_round_trip:
  assumes "isArray v" and "parse (stringify v) = Some v"
  shows "getProjects parse (storeProjects stringify ls v) = Inr v
       \<and> getIssues parse (storeIssues stringify ls p v) p = Inr v
       \<and> getTimeLogs parse (storeTimeLogs stringify ls m v) m = Inr v"
  using assms
  by (simp add: getters_read storeProjects_def storeIssues_def storeTimeLogs_def
        getItem_setItem js_or_array readCached_array)

theorem cache_round_trip_witness:
  "isArray (JArr [JNum 1, JNum 2])
   \<and> sample_parse (sample_stringify (JArr [JNum 1, JNum 2])) = Some (JArr [JNum 1, JNum 2])
   \<and> getProjects sample_parse (storeProjects sample_stringify [] (JArr [JNum 1, JNum 2]))
       = Inr (JArr [JNum 1, JNum 2])
   \<and> getIssues sample_parse (storeIssues sample_stringify [] ''a/b'' (JArr [JNum 1, JNum 2])) ''a/b''
       = Inr (JArr [JNum 1, JNum 2])
   \<and> getTimeLogs sample_parse
        (storeTimeLogs sample_stringify [] ''2024-03'' (JArr [JNum 1, JNum 2])) ''2024-03''
       = Inr (JArr [JNum 1, JNum 2])"
proof -
  have a: "isArray (JArr [JNum 1, JNum 2])" by simp
  have b: "sample_parse (sample_stringify (JArr [JNum 1, JNum 2])) = Some (JArr [JNum 1, JNum 2])"
    by (simp add: sample_parse_def sample_stringify_def)
  from cache_round_trip [where v = "JArr [JNum 1, JNum 2]" and parse = sample_parse
      and stringify = sample_stringify and ls = "[]" and p = "''a/b''" and m = "''2024-03''"] a b
  show ?thesis by simp
qed


subsection \<open>What clearAll keeps\<close>

text \<open>
  C10. \<open>clearAll\<close> removes exactly the entries whose key starts with \<^verbatim>\<open>appStore:\<close>: the
  storage afterwards is the storage before without those entries. The credential
  record under \<^verbatim>\<open>userAuth\<close> and the favourites under \<^verbatim>\<open>appFavorites\<close> are unchanged,
  and after \<open>saveCredentials\<close> the record just written is still there and the favourites are
  what they were.
\<close>

theorem clearAll_removes_cache_prefix_only:
  "clearAll ls = filter (\<lambda>kv. \<not> startsWith (fst kv) PREFIX) ls
   \<and> getItem (clearAll ls) k = (if startsWith k PREFIX then None else getItem ls k)
   \<and> getItem (clearAll ls) AUTH_STORAGE_KEY = getItem ls AUTH_STORAGE_KEY
   \<and> getItem (clearAll ls) FAVORITES_KEY = getItem ls FAVORITES_KEY
   \<and> getItem (saveCredentials stringify ts ls u t r) AUTH_STORAGE_KEY
       = Some (stringify (JObj [(''username'', JStr u), (''token'', JStr t),
                       (''repository'', JStr r), (''timestamp'', JStr ts)]))
   \<and> getItem (saveCredentials stringify ts ls u t r) FAVORITES_KEY = getItem ls FAVORITES_KEY"
  by (simp add: clearAll_filter [symmetric] getItem_clearAll getItem_saveCredentials
        AUTH_not_cache FAV_not_cache)



section \<open>Properties of formatDuration\<close>

lemma div_3600: "(s::int) div 3600 = (s div 60) div 60"
  using zdiv_zmult2_eq [of 60 s 60] by simp

lemma mod_3600_div_60: "((s::int) mod 3600) div 60 = (s div 60) mod 60"
  using zmod_zmult2_eq [of 60 s 60] by simp

lemma formatDuration_drop:
  assumes "0 \<le> s"
  shows "formatDuration s = formatDuration (60 * (s div 60))"
proof (cases "s < 60")
  case True
  with assms have "s div 60 = 0" "s div 3600 = 0" "s mod 3600 = s" by simp_all
  then show ?thesis by (simp add: formatDuration_def)
next
  case False
  then have pos: "0 < s" "0 < 60 * (s div 60)" by simp_all
  show ?thesis using pos
    by (simp add: formatDuration_def div_3600 mod_3600_div_60)
qed

lemma formatDuration_sub_minute:
  assumes "0 \<le> s" "s < 60"
  shows "formatDuration s = ''0m''"
proof -
  from assms have "s div 3600 = 0" "s mod 3600 = s" "s div 60 = 0" by simp_all
  then show ?thesis by (simp add: formatDuration_def)
qed

lemma formatDuration_closed_form:
  assumes "0 \<le> s"
  shows "formatDuration s =
     (if 0 < s div 3600 \<and> 0 < (s div 60) mod 60
        then string_of_nat (nat (s div 3600)) @ ''h '' @ string_of_nat (nat ((s div 60) mod 60)) @ ''m''
      else if 0 < s div 3600 then string_of_nat (nat (s div 3600)) @ ''h''
      else if 0 < (s div 60) mod 60 then string_of_nat (nat ((s div 60) mod 60)) @ ''m''
      else ''0m'')"
proof (cases "s = 0")
  case True
  then show ?thesis by (simp add: formatDuration_def)
next
  case False
  with assms have "0 < s" by simp
  then show ?thesis
    by (simp add: formatDuration_def mod_3600_div_60 Let_def)
qed

lemma formatDuration_examples:
  "formatDuration 5400 = ''1h 30m''" "formatDuration 0 = ''0m''" "formatDuration 45 = ''0m''"
  by code_simp+

text \<open>
  C9. \<open>formatDuration 5400\<close> is \<^verbatim>\<open>1h 30m\<close>, and 0 and 45 seconds both give \<^verbatim>\<open>0m\<close>. For
  every non-negative number of seconds the result is that of the seconds rounded down to a
  whole minute, it shows the whole hours and the whole minutes left in the hour, and a
  duration below one minute is \<^verbatim>\<open>0m\<close>.
\<close>

theorem formatDuration_rounds_down:
  "formatDuration 5400 = ''1h 30m'' \<and> formatDuration 0 = ''0m'' \<and> formatDuration 45 = ''0m''
   \<and> (0 \<le> s \<longrightarrow> formatDuration s = formatDuration (60 * (s div 60)))
   \<and> (0 \<le> s \<and> s < 60 \<longrightarrow> formatDuration s = ''0m'')
   \<and> (0 \<le> s \<longrightarrow> formatDuration s =
        (if 0 < s div 3600 \<and> 0 < (s div 60) mod 60
           then string_of_nat (nat (s div 3600)) @ ''h '' @
                string_of_nat (nat ((s div 60) mod 60)) @ ''m''
         else if 0 < s div 3600 then string_of_nat (nat (s div 3600)) @ ''h''
         else if 0 < (s div 60) mod 60 then string_of_nat (nat ((s div 60) mod 60)) @ ''m''
         else ''0m''))"
  using formatDuration_examples formatDuration_drop [of s] formatDuration_sub_minute [of s]
    formatDuration_closed_form [of s]
  by blast

theorem formatDuration_rounds_down_witness:
  "(0::int) \<le> 59 \<and> (59::int) < 60
   \<and> formatDuration 59 = formatDuration (60 * (59 div 60))
   \<and> formatDuration 59 = ''0m''
   \<and> (0::int) \<le> 5459 \<and> formatDuration 5459 = formatDuration (60 * (5459 div 60))
   \<and> formatDuration 5459 = ''1h 30m''"
proof -
  have a: "(0::int) \<le> 59 \<and> (59::int) < 60" by simp
  have b: "(0::int) \<le> 5459" by simp
  have c: "formatDuration (60 * (5459 div 60)) = ''1h 30m''" by code_simp
  from formatDuration_rounds_down [of 59] a
  have d: "formatDuration 59 = formatDuration (60 * (59 div 60)) \<and> formatDuration 59 = ''0m''"
    by blast
  from formatDuration_rounds_down [of 5459] b
  have e: "formatDuration 5459 = formatDuration (60 * (5459 div 60))"
    by blast
  from e c have f: "formatDuration 5459 = ''1h 30m''"
    by (rule trans)
  from a b d e f show ?thesis by blast
qed

section \<open>Properties of the Date model\<close>

subsection \<open>Days\<close>

lemma msPerDay_pos: "0 < msPerDay"
  by (simp add: msPerDay_def)

lemma div_lower: "0 < (M::int) \<Longrightarrow> x div M * M \<le> x"
proof -
  assume m: "0 < M"
  have e: "M * (x div M) + x mod M = x" by simp
  have b: "0 \<le> x mod M" using m by simp
  have "x div M * M = M * (x div M)" by simp
  with e b show ?thesis by linarith
qed

lemma div_upper: "0 < (M::int) \<Longrightarrow> x < (x div M + 1) * M"
proof -
  assume m: "0 < M"
  have e: "M * (x div M) + x mod M = x" by simp
  have b: "x mod M < M" using m by simp
  have "(x div M + 1) * M = M * (x div M) + M" by (simp add: algebra_simps)
  with e b show ?thesis by linarith
qed

lemma div_unique:
  assumes m: "0 < (M::int)" and a: "d * M \<le> x" and b: "x < (d + 1) * M"
  shows "x div M = d"
proof -
  have "x = M * d + (x - d * M)" by (simp add: algebra_simps)
  moreover have "0 \<le> x - d * M" using a by simp
  moreover have "x - d * M < M" using b by (simp add: algebra_simps)
  ultimately show ?thesis
    using int_div_pos_eq [of x M d "x - d * M"] by simp
qed

lemma localDay_atLocalDay [simp]: "localDay tz (atLocalDay tz d) = d"
  using msPerDay_pos
  by (simp add: localDay_def atLocalDay_def UTC_def LocalTime_def Day_def)

lemma setHours0_eq: "setHours0 tz t = atLocalDay tz (localDay tz t)"
  by (simp add: setHours0_def atLocalDay_def localDay_def)

lemma getDay_eq: "getDay tz t = (localDay tz t + 4) mod 7"
  by (simp add: getDay_def localDay_def)

lemma addDays_atLocalDay [simp]: "addDays (atLocalDay tz d) n = atLocalDay tz (d + n)"
  by (simp add: addDays_def atLocalDay_def UTC_def algebra_simps)

lemma atLocalDay_le [simp]: "atLocalDay tz a \<le> atLocalDay tz b \<longleftrightarrow> a \<le> b"
  using msPerDay_pos by (simp add: atLocalDay_def UTC_def)

lemma atLocalDay_less [simp]: "atLocalDay tz a < atLocalDay tz b \<longleftrightarrow> a < b"
  using msPerDay_pos by (simp add: atLocalDay_def UTC_def)

lemma atLocalDay_eq [simp]: "atLocalDay tz a = atLocalDay tz b \<longleftrightarrow> a = b"
  using msPerDay_pos by (simp add: atLocalDay_def UTC_def)

lemma isoDate_atLocalDay: "isoDate (atLocalDay tz d) = d + (- (tz * 60000)) div msPerDay"
proof -
  have "d * msPerDay - tz * 60000 = d * msPerDay + (- (tz * 60000))" by simp
  then have "(d * msPerDay - tz * 60000) div msPerDay = d + (- (tz * 60000)) div msPerDay"
    using msPerDay_pos by (metis div_mult_self3 less_irrefl)
  then show ?thesis
    by (simp add: isoDate_def Day_def atLocalDay_def UTC_def)
qed

lemma isoDate_atLocalDay_eq [simp]:
  "isoDate (atLocalDay tz a) = isoDate (atLocalDay tz b) \<longleftrightarrow> a = b"
  by (simp add: isoDate_atLocalDay)

lemma isoDate_atLocalDay_less [simp]:
  "isoDate (atLocalDay tz a) < isoDate (atLocalDay tz b) \<longleftrightarrow> a < b"
  by (simp add: isoDate_atLocalDay)

lemma localDay_bounds:
  "atLocalDay tz (localDay tz t) \<le> t" "t < atLocalDay tz (localDay tz t + 1)"
  using div_lower [OF msPerDay_pos, of "t + tz * 60000"]
        div_upper [OF msPerDay_pos, of "t + tz * 60000"]
  by (simp_all add: atLocalDay_def localDay_def UTC_def LocalTime_def Day_def)

lemma localDay_unique:
  assumes "atLocalDay tz d \<le> t" "t < atLocalDay tz (d + 1)"
  shows "localDay tz t = d"
proof -
  from assms have "d * msPerDay \<le> t + tz * 60000" "t + tz * 60000 < (d + 1) * msPerDay"
    by (simp_all add: atLocalDay_def UTC_def)
  then show ?thesis
    using div_unique [OF msPerDay_pos] by (simp add: localDay_def LocalTime_def Day_def)
qed

lemma daysToSubtract_int:
  "(if (d + 4) mod 7 = 0 then 6 else (d + 4) mod 7 - 1) = ((d::int) + 3) mod 7"
proof -
  define r where "r = (d + 3) mod 7"
  have r: "0 \<le> r" "r < 7" by (simp_all add: r_def)
  have "((d + 3) mod 7 + 1) mod 7 = (d + 3 + 1) mod 7"
    by (rule mod_add_left_eq)
  moreover have "d + 3 + 1 = d + 4" by simp
  ultimately have e: "(d + 4) mod 7 = (r + 1) mod 7" by (simp only: r_def)
  show ?thesis
  proof (cases "r = 6")
    case True
    with e show ?thesis by (simp add: r_def)
  next
    case False
    with r have "r + 1 < 7" "0 \<le> r + 1" by simp_all
    then have "(r + 1) mod 7 = r + 1" by simp
    with e r show ?thesis by (simp add: r_def)
  qed
qed

lemma daysToSubtract_eq:
  "(if getDay tz t = 0 then 6 else getDay tz t - 1) = (localDay tz t + 3) mod 7"
  unfolding getDay_eq by (rule daysToSubtract_int)

lemma getDay_setHours0 [simp]: "getDay tz (setHours0 tz t) = getDay tz t"
  by (simp add: getDay_eq setHours0_eq)

lemma weekStart_via_source:
  "addDays (setHours0 tz t)
     (- (if getDay tz (setHours0 tz t) = 0 then 6 else getDay tz (setHours0 tz t) - 1))
   = weekStartOf tz t"
  unfolding getDay_setHours0 daysToSubtract_eq
  by (simp add: setHours0_eq weekStartOf_def mondayDay_def)

lemma getWeekKey_eq: "getWeekKey tz t = isoDate (weekStartOf tz t)"
  unfolding getWeekKey_def Let_def weekStart_via_source ..

lemma mondayDay_is_monday: "(mondayDay d + 4) mod 7 = 1"
proof -
  have "7 * ((d + 3) div 7) + (d + 3) mod 7 = d + 3" by simp
  then have e: "mondayDay d + 4 = 1 + 7 * ((d + 3) div 7)"
    unfolding mondayDay_def by linarith
  show ?thesis unfolding e by simp
qed

lemma mondayDay_bounds: "mondayDay d \<le> d" "d < mondayDay d + 7"
proof -
  have "0 \<le> (d + 3) mod 7" "(d + 3) mod 7 < 7" by simp_all
  then show "mondayDay d \<le> d" "d < mondayDay d + 7"
    unfolding mondayDay_def by linarith+
qed

lemma mondayDay_unique:
  assumes "(w + 4) mod 7 = 1" "w \<le> d" "d < w + 7"
  shows "mondayDay d = w"
proof -
  have "((w + 4) mod 7 + 6) mod 7 = (w + 4 + 6) mod 7"
    by (rule mod_add_left_eq)
  moreover have "w + 4 + 6 = (w + 3) + 7 * 1" by simp
  moreover have "((w + 3) + 7 * 1) mod 7 = (w + 3) mod 7"
    by (rule mod_mult_self2)
  ultimately have w: "(w + 3) mod 7 = 0" using assms(1) by simp
  have "((w + 3) mod 7 + (d - w)) mod 7 = (w + 3 + (d - w)) mod 7"
    by (rule mod_add_left_eq)
  moreover have "w + 3 + (d - w) = d + 3" by simp
  ultimately have "(d + 3) mod 7 = (d - w) mod 7" using w by simp
  moreover from assms have "(d - w) mod 7 = d - w" by simp
  ultimately show ?thesis by (simp add: mondayDay_def)
qed

lemma isWeekStart_iff: "isWeekStart tz W \<longleftrightarrow> (\<exists>w. W = atLocalDay tz w \<and> (w + 4) mod 7 = 1)"
proof
  assume "isWeekStart tz W"
  then have "W = atLocalDay tz (localDay tz W) \<and> (localDay tz W + 4) mod 7 = 1"
    by (simp add: isWeekStart_def setHours0_eq getDay_eq)
  then show "\<exists>w. W = atLocalDay tz w \<and> (w + 4) mod 7 = 1" by blast
next
  assume "\<exists>w. W = atLocalDay tz w \<and> (w + 4) mod 7 = 1"
  then show "isWeekStart tz W"
    by (auto simp: isWeekStart_def setHours0_eq getDay_eq)
qed

lemma isWeekStart_weekStartOf: "isWeekStart tz (weekStartOf tz t)"
  unfolding isWeekStart_iff weekStartOf_def using mondayDay_is_monday by blast

lemma weekStartOf_bounds:
  "weekStartOf tz t \<le> t" "t < addDays (weekStartOf tz t) 7"
proof -
  have "atLocalDay tz (mondayDay (localDay tz t)) \<le> atLocalDay tz (localDay tz t)"
    using mondayDay_bounds(1) by simp
  with localDay_bounds(1) [where tz = tz and t = t] show "weekStartOf tz t \<le> t"
    unfolding weekStartOf_def by linarith
  have "atLocalDay tz (localDay tz t + 1) \<le> atLocalDay tz (mondayDay (localDay tz t) + 7)"
    using mondayDay_bounds(2) [of "localDay tz t"] by simp
  with localDay_bounds(2) [where tz = tz and t = t] show "t < addDays (weekStartOf tz t) 7"
    unfolding weekStartOf_def addDays_atLocalDay by linarith
qed

lemma weekStartOf_unique:
  assumes "isWeekStart tz W" "W \<le> t" "t < addDays W 7"
  shows "weekStartOf tz t = W"
proof -
  from assms(1) obtain w where w: "W = atLocalDay tz w" "(w + 4) mod 7 = 1"
    unfolding isWeekStart_iff by blast
  have lo: "w \<le> localDay tz t"
  proof (rule ccontr)
    assume "\<not> w \<le> localDay tz t"
    then have "atLocalDay tz (localDay tz t + 1) \<le> atLocalDay tz w" by simp
    with localDay_bounds(2) [where tz = tz and t = t] assms(2) w(1) show False by linarith
  qed
  have hi: "localDay tz t < w + 7"
  proof (rule ccontr)
    assume "\<not> localDay tz t < w + 7"
    then have "atLocalDay tz (w + 7) \<le> atLocalDay tz (localDay tz t)" by simp
    with localDay_bounds(1) [where tz = tz and t = t] assms(3) w(1) show False by simp
  qed
  from mondayDay_unique [OF w(2) lo hi] show ?thesis
    by (simp add: weekStartOf_def w(1))
qed


section \<open>Properties of groupTimeLogsByWeek\<close>

subsection \<open>The seeding loop\<close>

lemma update_fresh: "k \<notin> fst ` set al \<Longrightarrow> AList.update k v al = al @ [(k, v)]"
  by (induction al) auto

lemma isoDate_addDays: "isoDate (addDays t n) = isoDate t + n"
  using msPerDay_pos by (simp add: isoDate_def addDays_def Day_def)

lemma isoDate_mono: "a \<le> b \<Longrightarrow> isoDate a \<le> isoDate b"
  using msPerDay_pos by (simp add: isoDate_def Day_def zdiv_mono1)

lemma addDays_gt: "0 < n \<Longrightarrow> t < addDays t n"
  using msPerDay_pos by (simp add: addDays_def)

lemma weekStartsFrom_ge: "W \<in> set (weekStartsFrom b c) \<Longrightarrow> c \<le> W"
proof (induction b c rule: weekStartsFrom.induct)
  case (1 b c)
  show ?case
  proof (cases "c \<le> b")
    case True
    with "1.prems" have "W = c \<or> W \<in> set (weekStartsFrom b (addDays c 7))"
      by (subst (asm) weekStartsFrom.simps) simp
    then show ?thesis
      using "1.IH" [OF True] addDays_gt [of 7 c] by force
  next
    case False
    with "1.prems" show ?thesis
      by (subst (asm) weekStartsFrom.simps) simp
  qed
qed

lemma weekStartsFrom_le: "W \<in> set (weekStartsFrom b c) \<Longrightarrow> W \<le> b"
proof (induction b c rule: weekStartsFrom.induct)
  case (1 b c)
  show ?case
  proof (cases "c \<le> b")
    case True
    with "1.prems" have "W = c \<or> W \<in> set (weekStartsFrom b (addDays c 7))"
      by (subst (asm) weekStartsFrom.simps) simp
    then show ?thesis
      using "1.IH" [OF True] True by blast
  next
    case False
    with "1.prems" show ?thesis
      by (subst (asm) weekStartsFrom.simps) simp
  qed
qed

lemma seedWeeks_eq:
  "\<forall>k \<in> fst ` set ws. k < isoDate c \<Longrightarrow>
   seedWeeks l n c ws = ws @ map (\<lambda>W. (isoDate W, emptyWeek W)) (weekStartsFrom (min l n) c)"
proof (induction l n c ws rule: seedWeeks.induct)
  case (1 l n c ws)
  show ?case
  proof (cases "c \<le> l \<and> c \<le> n")
    case True
    let ?ws = "AList.update (isoDate c) \<lparr>weekStart = c, logs = [], totalSeconds = 0\<rparr> ws"
    from "1.prems" have fresh: "isoDate c \<notin> fst ` set ws" by auto
    then have ws': "?ws = ws @ [(isoDate c, emptyWeek c)]"
      by (simp add: update_fresh emptyWeek_def)
    have "\<forall>k \<in> fst ` set ?ws. k < isoDate (addDays c 7)"
      using "1.prems" by (auto simp: ws' isoDate_addDays)
    from "1.IH" [OF True this]
    have "seedWeeks l n (addDays c 7) ?ws
       = ?ws @ map (\<lambda>W. (isoDate W, emptyWeek W)) (weekStartsFrom (min l n) (addDays c 7))" .
    moreover have "seedWeeks l n c ws = seedWeeks l n (addDays c 7) ?ws"
      using True by (subst seedWeeks.simps) simp
    moreover have "weekStartsFrom (min l n) c = c # weekStartsFrom (min l n) (addDays c 7)"
      using True by (subst weekStartsFrom.simps) simp
    ultimately show ?thesis by (simp add: ws')
  next
    case False
    then have "seedWeeks l n c ws = ws"
      by (subst seedWeeks.simps) auto
    moreover from False have "weekStartsFrom (min l n) c = []"
      by (subst weekStartsFrom.simps) auto
    ultimately show ?thesis by simp
  qed
qed

lemma seedWeeks_empty:
  "seedWeeks l n c [] = map (\<lambda>W. (isoDate W, emptyWeek W)) (weekStartsFrom (min l n) c)"
  using seedWeeks_eq [of "[]" c l n] by simp

lemma weekStartsFrom_sorted: "sorted_wrt (<) (weekStartsFrom b c)"
proof (induction b c rule: weekStartsFrom.induct)
  case (1 b c)
  show ?case
  proof (cases "c \<le> b")
    case True
    have "\<forall>W \<in> set (weekStartsFrom b (addDays c 7)). c < W"
      using weekStartsFrom_ge [of _ b "addDays c 7"] addDays_gt [of 7 c] by force
    with "1.IH" [OF True] True show ?thesis
      by (subst weekStartsFrom.simps) simp
  next
    case False
    then show ?thesis by (subst weekStartsFrom.simps) simp
  qed
qed

lemma weekStartsFrom_keys_sorted: "sorted_wrt (<) (map isoDate (weekStartsFrom b c))"
proof (induction b c rule: weekStartsFrom.induct)
  case (1 b c)
  show ?case
  proof (cases "c \<le> b")
    case True
    have "\<forall>W \<in> set (weekStartsFrom b (addDays c 7)). isoDate c < isoDate W"
    proof
      fix W assume "W \<in> set (weekStartsFrom b (addDays c 7))"
      then have "addDays c 7 \<le> W" by (rule weekStartsFrom_ge)
      then have "isoDate (addDays c 7) \<le> isoDate W" by (rule isoDate_mono)
      then show "isoDate c < isoDate W" by (simp add: isoDate_addDays)
    qed
    with "1.IH" [OF True] True show ?thesis
      by (subst weekStartsFrom.simps) simp
  next
    case False
    then show ?thesis by (subst weekStartsFrom.simps) simp
  qed
qed

lemma weekStartsFrom_mem:
  assumes "(m + 4) mod 7 = 1"
  shows "set (weekStartsFrom b (atLocalDay tz m))
       = {W. isWeekStart tz W \<and> atLocalDay tz m \<le> W \<and> W \<le> b}"
  using assms
proof (induction b "atLocalDay tz m" arbitrary: m rule: weekStartsFrom.induct)
  case (1 b)
  show ?case
  proof (cases "atLocalDay tz m \<le> b")
    case True
    have m7: "(m + 7 + 4) mod 7 = 1"
    proof -
      have "(m + 4 + 7 * 1) mod 7 = (m + 4) mod 7" by (rule mod_mult_self2)
      moreover have "m + 7 + 4 = m + 4 + 7 * 1" by simp
      ultimately show ?thesis using "1.prems" by simp
    qed
    have step: "addDays (atLocalDay tz m) 7 = atLocalDay tz (m + 7)" by simp
    from "1.hyps" [OF True step m7]
    have IH: "set (weekStartsFrom b (atLocalDay tz (m + 7)))
       = {W. isWeekStart tz W \<and> atLocalDay tz (m + 7) \<le> W \<and> W \<le> b}" .
    have unfold: "set (weekStartsFrom b (atLocalDay tz m))
        = insert (atLocalDay tz m) (set (weekStartsFrom b (atLocalDay tz (m + 7))))"
      using True by (subst weekStartsFrom.simps) simp
    have first: "isWeekStart tz (atLocalDay tz m)"
      unfolding isWeekStart_iff using "1.prems" by blast
    have gap: "atLocalDay tz (m + 7) \<le> W" if "isWeekStart tz W" "atLocalDay tz m \<le> W" "W \<noteq> atLocalDay tz m" for W
    proof -
      from that(1) obtain w where w: "W = atLocalDay tz w" "(w + 4) mod 7 = 1"
        unfolding isWeekStart_iff by blast
      from that(2,3) w(1) have "m < w" by simp
      have "\<not> w < m + 7"
      proof
        assume "w < m + 7"
        with \<open>m < w\<close> have "mondayDay w = m"
          using mondayDay_unique [OF "1.prems", of w] by simp
        moreover have "mondayDay w = w"
          using mondayDay_unique [OF w(2), of w] by simp
        ultimately show False using \<open>m < w\<close> by simp
      qed
      then show ?thesis by (simp add: w(1))
    qed
    have lt: "atLocalDay tz m \<le> W" if "atLocalDay tz (m + 7) \<le> W" for W
    proof -
      have "atLocalDay tz m \<le> atLocalDay tz (m + 7)" by simp
      with that show ?thesis by (rule order_trans [rotated])
    qed
    show ?thesis
      unfolding unfold IH using first True gap lt by auto
  next
    case False
    then have "weekStartsFrom b (atLocalDay tz m) = []"
      by (subst weekStartsFrom.simps) simp
    with False show ?thesis by auto
  qed
qed

subsection \<open>Adding the logs\<close>

lemma fillWeek_fst [simp]: "fst (fillWeek tz ls kw) = fst kw"
  by (simp add: fillWeek_def)

lemma fillWeek_Nil [simp]: "fillWeek tz [] kw = kw"
  by (simp add: fillWeek_def weekLogs_def)

lemma fillWeek_Cons: "fillWeek tz (e # ls) kw = fillWeek tz ls (fillWeek tz [e] kw)"
  by (simp add: fillWeek_def weekLogs_def)

lemma fillWeek_other:
  "getWeekKey tz (spentAt e) \<noteq> fst kw \<Longrightarrow> fillWeek tz [e] kw = kw"
  by (simp add: fillWeek_def weekLogs_def)

lemma fillWeek_same:
  "fillWeek tz [e] (getWeekKey tz (spentAt e), w)
     = (getWeekKey tz (spentAt e),
        w\<lparr>logs := logs w @ [e], totalSeconds := totalSeconds w + timeSpent e\<rparr>)"
  by (simp add: fillWeek_def weekLogs_def)

lemma update_present:
  "distinct (map fst al) \<Longrightarrow> map_of al k = Some w \<Longrightarrow>
   AList.update k v al = map (\<lambda>kw. if fst kw = k then (k, v) else kw) al"
proof (induction al)
  case Nil
  then show ?case by simp
next
  case (Cons a al)
  show ?case
  proof (cases "fst a = k")
    case True
    with Cons.prems(1) have "\<forall>kw \<in> set al. fst kw \<noteq> k"
      by (fastforce simp: image_iff)
    then have "map (\<lambda>kw. if fst kw = k then (k, v) else kw) al = al"
      by (simp add: map_idI)
    with True show ?thesis by (cases a) simp
  next
    case False
    with Cons show ?thesis by (cases a) auto
  qed
qed

lemma addLog_step:
  assumes "distinct (map fst ws)"
  shows "addLog tz (ws, n) e
     = (map (fillWeek tz [e]) ws,
        n + (if getWeekKey tz (spentAt e) \<in> fst ` set ws then 1 else 0))"
proof (cases "map_of ws (getWeekKey tz (spentAt e))")
  case None
  then have notin: "getWeekKey tz (spentAt e) \<notin> fst ` set ws"
    by (simp add: map_of_eq_None_iff)
  then have "\<forall>kw \<in> set ws. fillWeek tz [e] kw = kw"
    by (auto intro!: fillWeek_other)
  then have "map (fillWeek tz [e]) ws = ws" by (simp add: map_idI)
  with None notin show ?thesis by (simp add: addLog_def)
next
  case (Some w)
  let ?k = "getWeekKey tz (spentAt e)"
  from Some have isin: "?k \<in> fst ` set ws"
    by (metis map_of_eq_None_iff option.distinct(1))
  from Some have mem: "(?k, w) \<in> set ws" by (rule map_of_SomeD)
  let ?w' = "w\<lparr>logs := logs w @ [e], totalSeconds := totalSeconds w + timeSpent e\<rparr>"
  have eq: "map (\<lambda>kw. if fst kw = ?k then (?k, ?w') else kw) ws = map (fillWeek tz [e]) ws"
  proof (rule map_cong [OF refl])
    fix kw assume kw: "kw \<in> set ws"
    show "(if fst kw = ?k
            then (?k, w\<lparr>logs := logs w @ [e], totalSeconds := totalSeconds w + timeSpent e\<rparr>)
            else kw) = fillWeek tz [e] kw"
    proof (cases "fst kw = ?k")
      case True
      with kw mem assms have "kw = (?k, w)"
        by (metis eq_key_imp_eq_value prod.collapse)
      then show ?thesis using fillWeek_same [of tz e w] by simp
    next
      case False
      then show ?thesis by (simp add: fillWeek_other)
    qed
  qed
  have upd: "AList.update ?k ?w' ws = map (fillWeek tz [e]) ws"
    using update_present [OF assms Some, of ?w'] eq by (simp only:)
  have "addLog tz (ws, n) e = (AList.update ?k ?w' ws, n + 1)"
    using Some by (simp add: addLog_def Let_def)
  with upd isin show ?thesis by (simp only: if_True)
qed

lemma foldl_addLog:
  assumes "distinct (map fst ws)"
  shows "foldl (addLog tz) (ws, n) ls
     = (map (fillWeek tz ls) ws,
        n + length (filter (\<lambda>e. getWeekKey tz (spentAt e) \<in> fst ` set ws) ls))"
  using assms
proof (induction ls arbitrary: ws n)
  case Nil
  then show ?case by simp
next
  case (Cons e ls)
  have d: "distinct (map fst (map (fillWeek tz [e]) ws))"
    using Cons.prems by (simp add: comp_def)
  have keys: "fst ` set (map (fillWeek tz [e]) ws) = fst ` set ws"
    by (force simp: image_iff)
  show ?case
    unfolding foldl_Cons addLog_step [OF Cons.prems] Cons.IH [OF d] keys
    by (simp add: fillWeek_Cons [symmetric] comp_def)
qed

lemma insort_key_last:
  "\<forall>y \<in> set ys. f y < f x \<Longrightarrow> insort_key f x ys = ys @ [x]"
  by (induction ys) auto

lemma sort_key_rev:
  "sorted_wrt (<) (map g xs) \<Longrightarrow> sort_key (\<lambda>x. - g x) xs = rev xs" for g :: "'a \<Rightarrow> int"
proof (induction xs)
  case Nil
  then show ?case by simp
next
  case (Cons x xs)
  then have "\<forall>y \<in> set (rev xs). - g y < - g x" by auto
  with Cons show ?case
    by (simp add: insort_key_last)
qed

subsection \<open>The result in closed form\<close>

lemma newDate_atLocalDay:
  "newDate tz y m d
     = atLocalDay tz (MakeDay (if 0 \<le> y \<and> y \<le> 99 then 1900 + y else y) m d)"
  by (simp add: newDate_def atLocalDay_def Let_def)

lemma setHours0_atLocalDay [simp]: "setHours0 tz (atLocalDay tz d) = atLocalDay tz d"
  by (simp add: setHours0_eq)

lemma firstDayOfMonth_midnight [simp]:
  "setHours0 tz (firstDayOfMonth tz ref) = firstDayOfMonth tz ref"
  by (simp add: firstDayOfMonth_def newDate_atLocalDay)

lemma weekStartOf_atLocalDay: "weekStartOf tz t = atLocalDay tz (mondayDay (localDay tz t))"
  by (simp add: weekStartOf_def)

lemma weekStart_of_midnight:
  assumes "setHours0 tz t = t"
  shows "addDays t (- (if getDay tz t = 0 then 6 else getDay tz t - 1)) = weekStartOf tz t"
proof -
  have "addDays (setHours0 tz t) (- ((localDay tz t + 3) mod 7)) = weekStartOf tz t"
    by (simp add: setHours0_eq weekStartOf_def mondayDay_def)
  then show ?thesis
    unfolding daysToSubtract_eq assms .
qed

lemma fill_seeded:
  "snd (fillWeek tz ls (isoDate W, emptyWeek W)) = filledWeek tz ls W"
  by (simp add: fillWeek_def emptyWeek_def filledWeek_def)

lemma sorted_wrt_less_distinct: "sorted_wrt (<) (xs :: int list) \<Longrightarrow> distinct xs"
  by (induction xs) auto

lemma groupTimeLogsByWeek_run_explicit:
  "groupTimeLogsByWeek_run tz clock ls ref
     = (rev (map (filledWeek tz ls) (seededWeekStarts tz clock ref)),
        length (filter (\<lambda>e. getWeekKey tz (spentAt e) \<in> isoDate ` set (seededWeekStarts tz clock ref)) ls))"
proof -
  let ?first = "firstDayOfMonth tz ref"
  let ?xs = "seededWeekStarts tz clock ref"
  let ?ws = "map (\<lambda>W. (isoDate W, emptyWeek W)) ?xs"
  have start: "addDays ?first (- (if getDay tz ?first = 0 then 6 else getDay tz ?first - 1))
      = weekStartOf tz ?first"
    by (rule weekStart_of_midnight) simp
  have seed: "seedWeeks (lastDayOfMonth tz ref) (setHours0 tz clock) (weekStartOf tz ?first) [] = ?ws"
    by (simp add: seedWeeks_empty seededWeekStarts_def)
  have keys: "map fst ?ws = map isoDate ?xs" by (simp add: comp_def)
  have "distinct (map isoDate ?xs)"
    unfolding seededWeekStarts_def
    by (rule sorted_wrt_less_distinct) (rule weekStartsFrom_keys_sorted)
  then have d: "distinct (map fst ?ws)"
    by (simp only: keys)
  have img: "fst ` set ?ws = isoDate ` set ?xs" by force
  have vals: "map snd (map (fillWeek tz ls) ?ws) = map (filledWeek tz ls) ?xs"
    by (simp add: comp_def fill_seeded)
  have "sorted_wrt (<) (map weekStart (map (filledWeek tz ls) ?xs))"
    using weekStartsFrom_sorted [of "min (lastDayOfMonth tz ref) (setHours0 tz clock)"
            "weekStartOf tz ?first"]
    by (simp add: comp_def filledWeek_def seededWeekStarts_def)
  then have srt: "sort_key (\<lambda>w. - weekStart w) (map (filledWeek tz ls) ?xs)
      = rev (map (filledWeek tz ls) ?xs)"
    by (rule sort_key_rev)
  show ?thesis
    unfolding groupTimeLogsByWeek_run_def Let_def start seed foldl_addLog [OF d] img
    by (simp only: fst_conv snd_conv vals srt add_0)
qed

lemma groupTimeLogsByWeek_explicit:
  "groupTimeLogsByWeek tz clock ls ref = rev (map (filledWeek tz ls) (seededWeekStarts tz clock ref))"
  by (simp add: groupTimeLogsByWeek_def groupTimeLogsByWeek_run_explicit)

lemma weekStarts_result:
  "map weekStart (groupTimeLogsByWeek tz clock ls ref) = rev (seededWeekStarts tz clock ref)"
  by (simp add: groupTimeLogsByWeek_explicit rev_map comp_def filledWeek_def)

lemma set_seededWeekStarts:
  "set (seededWeekStarts tz clock ref)
     = {W. isWeekStart tz W \<and> weekStartOf tz (firstDayOfMonth tz ref) \<le> W
           \<and> W \<le> lastDayOfMonth tz ref \<and> W \<le> setHours0 tz clock}"
  unfolding seededWeekStarts_def weekStartOf_atLocalDay
  by (subst weekStartsFrom_mem [OF mondayDay_is_monday]) auto

subsection \<open>Months and weeks\<close>

lemma year_step: "daysBeforeYear (y - 1) + 337 < daysBeforeYear y"
proof -
  define A B C A' B' C' where "A = (y - 1) div 4" and "B = (y - 1) div 100" and "C = (y - 1) div 400"
    and "A' = y div 4" and "B' = y div 100" and "C' = y div 400"
  have a: "A \<le> A'" unfolding A_def A'_def by (rule zdiv_mono1) simp_all
  have b: "C \<le> C'" unfolding C_def C'_def by (rule zdiv_mono1) simp_all
  have "y div 100 \<le> (y - 1 + 100) div 100" by (rule zdiv_mono1) simp_all
  also have "(y - 1 + 100) div 100 = (y - 1) div 100 + 1" by simp
  finally have c: "B' \<le> B + 1" unfolding B_def B'_def .
  have d: "365 * (y - 1) = 365 * y - 365" by simp
  have "365 * (y - 1) + A - B + C + 337 < 365 * y + A' - B' + C'"
    unfolding d using a b c by linarith
  then show ?thesis
    unfolding daysBeforeYear_def A_def B_def C_def A'_def B'_def C'_def .
qed

lemma month_step:
  assumes "1 \<le> k" "k \<le> 11"
  shows "days_from_civil y k 1 < days_from_civil y (k + 1) 1"
proof -
  from assms have "k = 1 \<or> k = 2 \<or> k = 3 \<or> k = 4 \<or> k = 5 \<or> k = 6 \<or> k = 7 \<or> k = 8
      \<or> k = 9 \<or> k = 10 \<or> k = 11" by arith
  then show ?thesis
    using year_step [of y]
    by (elim disjE) (simp_all add: days_from_civil_def)
qed

lemma december_step: "days_from_civil y 12 1 < days_from_civil (y + 1) 1 1"
  by (simp add: days_from_civil_def)

lemma MakeDay_month_step: "MakeDay y m 1 < MakeDay y (m + 1) 1"
proof -
  define q r where "q = m div 12" and "r = m mod 12"
  have m: "m = 12 * q + r" and r: "0 \<le> r" "r < 12"
    by (simp_all add: q_def r_def)
  show ?thesis
  proof (cases "r = 11")
    case True
    have "m + 1 = 12 * (q + 1) + 0" using m True by simp
    then have "(m + 1) div 12 = q + 1" "(m + 1) mod 12 = 0"
      using int_div_pos_eq [of "m + 1" 12 "q + 1" 0] int_mod_pos_eq [of "m + 1" 12 "q + 1" 0]
      by simp_all
    then show ?thesis
      using december_step [of "y + q"] True
      by (simp add: MakeDay_def q_def [symmetric] r_def [symmetric] add.assoc)
  next
    case False
    with r have r': "0 \<le> r + 1" "r + 1 < 12" by simp_all
    have "m + 1 = 12 * q + (r + 1)" using m by simp
    then have "(m + 1) div 12 = q" "(m + 1) mod 12 = r + 1"
      using int_div_pos_eq [of "m + 1" 12 q "r + 1"] int_mod_pos_eq [of "m + 1" 12 q "r + 1"] r'
      by simp_all
    then show ?thesis
      using month_step [of "r + 1" "y + q"] r False
      by (simp add: MakeDay_def q_def [symmetric] r_def [symmetric])
  qed
qed

lemma first_le_last: "firstDayOfMonth tz ref \<le> lastDayOfMonth tz ref"
proof -
  have "MakeDay y m 1 \<le> MakeDay y (m + 1) 0" for y m
    using MakeDay_month_step [of y m] by (simp add: MakeDay_def)
  then show ?thesis
    by (simp add: firstDayOfMonth_def lastDayOfMonth_def newDate_atLocalDay)
qed

lemma lastDayOfMonth_midnight [simp]:
  "setHours0 tz (lastDayOfMonth tz ref) = lastDayOfMonth tz ref"
  by (simp add: lastDayOfMonth_def newDate_atLocalDay)

lemma weekStart_gap:
  assumes "isWeekStart tz V" "isWeekStart tz W" "V < W"
  shows "addDays V 7 \<le> W"
proof -
  from assms(1) obtain v where v: "V = atLocalDay tz v" "(v + 4) mod 7 = 1"
    unfolding isWeekStart_iff by blast
  from assms(2) obtain w where w: "W = atLocalDay tz w" "(w + 4) mod 7 = 1"
    unfolding isWeekStart_iff by blast
  from assms(3) v(1) w(1) have "v < w" by simp
  have "\<not> w < v + 7"
  proof
    assume "w < v + 7"
    with \<open>v < w\<close> have "mondayDay w = v"
      using mondayDay_unique [OF v(2), of w] by simp
    moreover have "mondayDay w = w"
      using mondayDay_unique [OF w(2), of w] by simp
    ultimately show False using \<open>v < w\<close> by simp
  qed
  then show ?thesis by (simp add: v(1) w(1))
qed

lemma weeks_intersecting:
  assumes a: "setHours0 tz a = a" and ab: "a \<le> b"
  shows "{W. isWeekStart tz W \<and> weekStartOf tz a \<le> W \<and> W \<le> b}
       = {W. isWeekStart tz W \<and> weekIntersects W a b}"
proof (rule Collect_cong)
  fix W
  show "(isWeekStart tz W \<and> weekStartOf tz a \<le> W \<and> W \<le> b)
      = (isWeekStart tz W \<and> weekIntersects W a b)"
  proof (cases "isWeekStart tz W")
    case False
    then show ?thesis by simp
  next
    case True
    have "(weekStartOf tz a \<le> W \<and> W \<le> b) = weekIntersects W a b"
    proof
      assume h: "weekStartOf tz a \<le> W \<and> W \<le> b"
      have "a < addDays (weekStartOf tz a) 7" by (rule weekStartOf_bounds)
      also have "addDays (weekStartOf tz a) 7 \<le> addDays W 7"
        using h by (simp add: addDays_def)
      finally have aW: "a < addDays W 7" .
      have W7: "W < addDays W 7" by (rule addDays_gt) simp
      show "weekIntersects W a b"
        unfolding weekIntersects_def
      proof (intro exI conjI)
        show "W \<le> max W a" by simp
        show "max W a < addDays W 7" using aW W7 by simp
        show "a \<le> max W a" by simp
        show "max W a \<le> b" using h ab by simp
      qed
    next
      assume "weekIntersects W a b"
      then obtain d where d: "W \<le> d" "d < addDays W 7" "a \<le> d" "d \<le> b"
        unfolding weekIntersects_def by blast
      have "weekStartOf tz a \<le> W"
      proof (rule ccontr)
        assume "\<not> weekStartOf tz a \<le> W"
        then have "W < weekStartOf tz a" by simp
        from weekStart_gap [OF True isWeekStart_weekStartOf this]
        have "addDays W 7 \<le> weekStartOf tz a" .
        also have "weekStartOf tz a \<le> a" by (rule weekStartOf_bounds)
        finally show False using d by simp
      qed
      with d show "weekStartOf tz a \<le> W \<and> W \<le> b" by simp
    qed
    with True show ?thesis by simp
  qed
qed

subsection \<open>Week starts of the result\<close>

lemma seeded_le_today:
  "W \<in> set (seededWeekStarts tz clock ref) \<Longrightarrow> W \<le> setHours0 tz clock"
  by (simp add: set_seededWeekStarts)

lemma weekStarts_set:
  "set (map weekStart (groupTimeLogsByWeek tz clock ls ref))
     = {W. isWeekStart tz W \<and> weekStartOf tz (firstDayOfMonth tz ref) \<le> W
           \<and> W \<le> min (lastDayOfMonth tz ref) (setHours0 tz clock)}"
  unfolding weekStarts_result set_rev set_seededWeekStarts by auto

lemma weekStarts_sorted:
  "sorted_wrt (>) (map weekStart (groupTimeLogsByWeek tz clock ls ref))"
  unfolding weekStarts_result sorted_wrt_rev seededWeekStarts_def
  by (rule weekStartsFrom_sorted)

lemma weekKeys_distinct:
  "distinct (map (\<lambda>w. isoDate (weekStart w)) (groupTimeLogsByWeek tz clock ls ref))"
proof -
  have "map (\<lambda>w. isoDate (weekStart w)) (groupTimeLogsByWeek tz clock ls ref)
      = map isoDate (map weekStart (groupTimeLogsByWeek tz clock ls ref))"
    by (simp add: comp_def)
  also have "\<dots> = rev (map isoDate (seededWeekStarts tz clock ref))"
    by (simp add: weekStarts_result rev_map)
  finally show ?thesis
    using sorted_wrt_less_distinct [OF weekStartsFrom_keys_sorted]
    by (simp add: seededWeekStarts_def)
qed

lemma empty_buckets:
  "w \<in> set (groupTimeLogsByWeek tz clock [] ref) \<Longrightarrow> logs w = [] \<and> totalSeconds w = 0"
  by (auto simp: groupTimeLogsByWeek_explicit filledWeek_def weekLogs_def)

text \<open>
  The instants of the worked examples, all read at offset 0, with their civil dates and
  days of the week (0 is Sunday):
  \<^item> \<open>1698624000000\<close> is Monday 30 October 2023, 00:00;
  \<^item> \<open>1698753600000\<close> is Tuesday 31 October 2023, 12:00;
  \<^item> \<open>1698796800000\<close> is Wednesday 1 November 2023, 00:00;
  \<^item> \<open>1708905600000\<close> is Monday 26 February 2024, 00:00;
  \<^item> \<open>1709251200000\<close> is Friday 1 March 2024, 00:00;
  \<^item> \<open>1709542800000\<close> and \<open>1709560800000\<close> are Monday 4 March 2024, 09:00 and 14:00;
  \<^item> \<open>1710936000000\<close> is Wednesday 20 March 2024, 12:00;
  \<^item> \<open>1711929600000\<close> is Monday 1 April 2024, 00:00.
\<close>

lemma example_dates:
  "civil_from_days (Day 1698624000000) = (2023, 10, 30)" "getDay 0 1698624000000 = 1"
  "civil_from_days (Day 1698753600000) = (2023, 10, 31)" "getDay 0 1698753600000 = 2"
  "civil_from_days (Day 1698796800000) = (2023, 11, 1)" "getDay 0 1698796800000 = 3"
  "civil_from_days (Day 1708905600000) = (2024, 2, 26)" "getDay 0 1708905600000 = 1"
  "civil_from_days (Day 1709251200000) = (2024, 3, 1)" "getDay 0 1709251200000 = 5"
  "civil_from_days (Day 1709542800000) = (2024, 3, 4)" "getDay 0 1709542800000 = 1"
  "civil_from_days (Day 1709560800000) = (2024, 3, 4)"
  "civil_from_days (Day 1710936000000) = (2024, 3, 20)" "getDay 0 1710936000000 = 3"
  "civil_from_days (Day 1711929600000) = (2024, 4, 1)" "getDay 0 1711929600000 = 1"
  by code_simp+

lemma nov_first: "firstDayOfMonth 0 1698796800000 = 1698796800000"
  by code_simp

lemma oct_today: "setHours0 0 1698753600000 = 1698710400000"
  by code_simp

text \<open>
  C1 as stated fails when today lies before the first day of the month but in the same
  week: for November 2023 (which starts on a Wednesday) read on Tuesday 31 October 2023,
  the result has one bucket, the week of Monday 30 October, while no week intersects the
  interval from 1 November to the earlier of 30 November and 31 October, which is empty.
\<close>

theorem groupTimeLogsByWeek_seeds_before_month:
  "map weekStart (groupTimeLogsByWeek 0 1698753600000 [] 1698796800000) = [1698624000000]
   \<and> {W. isWeekStart 0 W
          \<and> weekIntersects W (firstDayOfMonth 0 1698796800000)
               (min (lastDayOfMonth 0 1698796800000) (setHours0 0 1698753600000))} = {}"
proof
  show "map weekStart (groupTimeLogsByWeek 0 1698753600000 [] 1698796800000) = [1698624000000]"
    by code_simp
  show "{W. isWeekStart 0 W
          \<and> weekIntersects W (firstDayOfMonth 0 1698796800000)
               (min (lastDayOfMonth 0 1698796800000) (setHours0 0 1698753600000))} = {}"
    by (auto simp: weekIntersects_def nov_first oct_today)
qed

text \<open>
  C1, amended. For every reference month and every list of entries the buckets' week starts
  are exactly the local-midnight Mondays from the Monday of the week of the first day of the
  month up to the last day of the month and up to today. Whenever today is not before the
  first day of the month these are exactly the Monday starts of the weeks that intersect the
  days from the first day of the month to the earlier of its last day and today. The buckets
  are in strictly descending order of week start, their week keys are distinct, none starts
  after today, and they are the same buckets, empty, when there are no entries.
\<close>

theorem groupTimeLogsByWeek_week_starts:
  "set (map weekStart (groupTimeLogsByWeek tz clock timeLogs ref))
     = {W. isWeekStart tz W \<and> weekStartOf tz (firstDayOfMonth tz ref) \<le> W
           \<and> W \<le> min (lastDayOfMonth tz ref) (setHours0 tz clock)}
   \<and> (firstDayOfMonth tz ref \<le> setHours0 tz clock \<longrightarrow>
        set (map weekStart (groupTimeLogsByWeek tz clock timeLogs ref))
          = {W. isWeekStart tz W
                \<and> weekIntersects W (firstDayOfMonth tz ref)
                     (min (lastDayOfMonth tz ref) (setHours0 tz clock))})
   \<and> sorted_wrt (>) (map weekStart (groupTimeLogsByWeek tz clock timeLogs ref))
   \<and> distinct (map (\<lambda>w. isoDate (weekStart w)) (groupTimeLogsByWeek tz clock timeLogs ref))
   \<and> (\<forall>w \<in> set (groupTimeLogsByWeek tz clock timeLogs ref). weekStart w \<le> setHours0 tz clock)
   \<and> map weekStart (groupTimeLogsByWeek tz clock timeLogs ref)
       = map weekStart (groupTimeLogsByWeek tz clock [] ref)
   \<and> (\<forall>w \<in> set (groupTimeLogsByWeek tz clock [] ref). logs w = [] \<and> totalSeconds w = 0)"
proof (intro conjI impI)
  show "set (map weekStart (groupTimeLogsByWeek tz clock timeLogs ref))
     = {W. isWeekStart tz W \<and> weekStartOf tz (firstDayOfMonth tz ref) \<le> W
           \<and> W \<le> min (lastDayOfMonth tz ref) (setHours0 tz clock)}"
    by (rule weekStarts_set)
next
  assume "firstDayOfMonth tz ref \<le> setHours0 tz clock"
  with first_le_last [of tz ref]
  have "firstDayOfMonth tz ref \<le> min (lastDayOfMonth tz ref) (setHours0 tz clock)"
    by simp
  from weeks_intersecting [OF firstDayOfMonth_midnight this]
  show "set (map weekStart (groupTimeLogsByWeek tz clock timeLogs ref))
          = {W. isWeekStart tz W
                \<and> weekIntersects W (firstDayOfMonth tz ref)
                     (min (lastDayOfMonth tz ref) (setHours0 tz clock))}"
    unfolding weekStarts_set .
next
  show "sorted_wrt (>) (map weekStart (groupTimeLogsByWeek tz clock timeLogs ref))"
    by (rule weekStarts_sorted)
next
  show "distinct (map (\<lambda>w. isoDate (weekStart w)) (groupTimeLogsByWeek tz clock timeLogs ref))"
    by (rule weekKeys_distinct)
next
  show "\<forall>w \<in> set (groupTimeLogsByWeek tz clock timeLogs ref). weekStart w \<le> setHours0 tz clock"
    using weekStarts_set [of tz clock timeLogs ref] by auto
next
  show "map weekStart (groupTimeLogsByWeek tz clock timeLogs ref)
       = map weekStart (groupTimeLogsByWeek tz clock [] ref)"
    by (simp only: weekStarts_result)
next
  show "\<forall>w \<in> set (groupTimeLogsByWeek tz clock [] ref). logs w = [] \<and> totalSeconds w = 0"
    using empty_buckets by blast
qed

text \<open>
  March 2024 read on Wednesday 20 March, with two entries on Monday 4 March: today is after
  the first day of the month, and the buckets are the weeks of 18, 11 and 4 March and of
  26 February, the Monday of the week in which 1 March falls.
\<close>

lemma march_first: "firstDayOfMonth 0 1709251200000 = 1709251200000"
  by code_simp

lemma march_today: "setHours0 0 1710936000000 = 1710892800000"
  by code_simp

theorem groupTimeLogsByWeek_week_starts_witness:
  "firstDayOfMonth 0 1709251200000 \<le> setHours0 0 1710936000000
   \<and> map weekStart (groupTimeLogsByWeek 0 1710936000000
         [\<lparr>log_id = ''a'', spentAt = 1709542800000, timeSpent = 3600\<rparr>,
          \<lparr>log_id = ''b'', spentAt = 1709560800000, timeSpent = 1800\<rparr>] 1709251200000)
       = [1710720000000, 1710115200000, 1709510400000, 1708905600000]
   \<and> set (map weekStart (groupTimeLogsByWeek 0 1710936000000
         [\<lparr>log_id = ''a'', spentAt = 1709542800000, timeSpent = 3600\<rparr>,
          \<lparr>log_id = ''b'', spentAt = 1709560800000, timeSpent = 1800\<rparr>] 1709251200000))
       = {W. isWeekStart 0 W
             \<and> weekIntersects W (firstDayOfMonth 0 1709251200000)
                  (min (lastDayOfMonth 0 1709251200000) (setHours0 0 1710936000000))}"
proof -
  have h: "firstDayOfMonth 0 1709251200000 \<le> setHours0 0 1710936000000"
    by (simp add: march_first march_today)
  have v: "map weekStart (groupTimeLogsByWeek 0 1710936000000
         [\<lparr>log_id = ''a'', spentAt = 1709542800000, timeSpent = 3600\<rparr>,
          \<lparr>log_id = ''b'', spentAt = 1709560800000, timeSpent = 1800\<rparr>] 1709251200000)
       = [1710720000000, 1710115200000, 1709510400000, 1708905600000]"
    by code_simp
  from groupTimeLogsByWeek_week_starts [of 0 1710936000000
         "[\<lparr>log_id = ''a'', spentAt = 1709542800000, timeSpent = 3600\<rparr>,
          \<lparr>log_id = ''b'', spentAt = 1709560800000, timeSpent = 1800\<rparr>]" 1709251200000] h
  have "set (map weekStart (groupTimeLogsByWeek 0 1710936000000
         [\<lparr>log_id = ''a'', spentAt = 1709542800000, timeSpent = 3600\<rparr>,
          \<lparr>log_id = ''b'', spentAt = 1709560800000, timeSpent = 1800\<rparr>] 1709251200000))
       = {W. isWeekStart 0 W
             \<and> weekIntersects W (firstDayOfMonth 0 1709251200000)
                  (min (lastDayOfMonth 0 1709251200000) (setHours0 0 1710936000000))}"
    by blast
  with h v show ?thesis by blast
qed

subsection \<open>Grouping a week by day\<close>

lemma map_entry_keys: "map fst (AList.map_entry k f al) = map fst al"
  by (induction al) auto

lemma addToDay_keys:
  "map fst (addToDay acc e)
     = (if isoDate (spentAt e) \<in> set (map fst acc) then map fst acc
        else map fst acc @ [isoDate (spentAt e)])"
proof (cases "map_of acc (isoDate (spentAt e))")
  case None
  then have "isoDate (spentAt e) \<notin> set (map fst acc)"
    by (simp add: map_of_eq_None_iff)
  with None show ?thesis
    by (simp add: addToDay_def Let_def map_entry_keys update_keys)
next
  case (Some g)
  then have "isoDate (spentAt e) \<in> set (map fst acc)"
    by (metis map_of_eq_None_iff option.distinct(1) set_map)
  with Some show ?thesis
    by (simp add: addToDay_def Let_def map_entry_keys)
qed

lemma addToDay_map_of:
  "map_of (addToDay acc e) k =
     (if k = isoDate (spentAt e)
      then Some (case map_of acc k of
                   None \<Rightarrow> \<lparr>date = spentAt e, day_logs = [e], day_totalSeconds = timeSpent e\<rparr>
                 | Some g \<Rightarrow> g\<lparr>day_logs := day_logs g @ [e],
                               day_totalSeconds := day_totalSeconds g + timeSpent e\<rparr>)
      else map_of acc k)"
  by (simp add: addToDay_def Let_def map_of_map_entry update_conv' split: option.splits)

lemma dayInv_step:
  assumes "dayInv acc xs"
  shows "dayInv (addToDay acc e) (xs @ [e])"
proof -
  let ?k = "isoDate (spentAt e)"
  from assms have d: "distinct (map fst acc)"
    and m: "\<And>k. map_option day_logs (map_of acc k)
             = (if dayLogs xs k = [] then None else Some (dayLogs xs k))"
    by (simp_all add: dayInv_def)
  have d': "distinct (map fst (addToDay acc e))"
    using d by (simp add: addToDay_keys)
  have "map_option day_logs (map_of (addToDay acc e) k)
      = (if dayLogs (xs @ [e]) k = [] then None else Some (dayLogs (xs @ [e]) k))" for k
  proof (cases "k = ?k")
    case False
    then have "dayLogs (xs @ [e]) k = dayLogs xs k" by (auto simp: dayLogs_def)
    with False m [of k] show ?thesis by (simp add: addToDay_map_of)
  next
    case True
    have new: "dayLogs (xs @ [e]) ?k = dayLogs xs ?k @ [e]" by (simp add: dayLogs_def)
    show ?thesis
    proof (cases "map_of acc ?k")
      case None
      with m [of ?k] have "dayLogs xs ?k = []" by (simp split: if_splits)
      with None True new show ?thesis by (simp add: addToDay_map_of)
    next
      case (Some g)
      with m [of ?k] have "day_logs g = dayLogs xs ?k" by (simp split: if_splits)
      with Some True new show ?thesis by (simp add: addToDay_map_of)
    qed
  qed
  with d' show ?thesis by (simp add: dayInv_def)
qed

lemma dayInv_foldl: "dayInv acc xs \<Longrightarrow> dayInv (foldl addToDay acc ls) (xs @ ls)"
proof (induction ls arbitrary: acc xs)
  case Nil
  then show ?case by simp
next
  case (Cons e ls)
  from Cons.IH [OF dayInv_step [OF Cons.prems, of e]] show ?case by simp
qed

lemma dayInv_logsByDay: "dayInv (logsByDay w) (logs w)"
  using dayInv_foldl [of "[]" "[]" "logs w"]
  by (simp add: logsByDay_def dayInv_def dayLogs_def)

lemma logsByDay_distinct: "distinct (map fst (logsByDay w))"
  using dayInv_logsByDay [of w] by (simp add: dayInv_def)

lemma logsByDay_entry:
  assumes "(k, g) \<in> set (logsByDay w)"
  shows "day_logs g = dayLogs (logs w) k"
proof -
  from assms logsByDay_distinct have g: "map_of (logsByDay w) k = Some g" by simp
  from dayInv_logsByDay [of w]
  have "map_option day_logs (map_of (logsByDay w) k)
      = (if dayLogs (logs w) k = [] then None else Some (dayLogs (logs w) k))"
    unfolding dayInv_def by blast
  then show ?thesis
    unfolding g by (simp split: if_splits)
qed

lemma logsByDay_has:
  assumes "E \<in> set (logs w)"
  shows "\<exists>g. (isoDate (spentAt E), g) \<in> set (logsByDay w)"
proof -
  from assms have "dayLogs (logs w) (isoDate (spentAt E)) \<noteq> []"
    by (auto simp: dayLogs_def filter_empty_conv)
  moreover from dayInv_logsByDay [of w]
  have "map_option day_logs (map_of (logsByDay w) (isoDate (spentAt E)))
      = (if dayLogs (logs w) (isoDate (spentAt E)) = [] then None
         else Some (dayLogs (logs w) (isoDate (spentAt E))))"
    unfolding dayInv_def by blast
  ultimately have "map_of (logsByDay w) (isoDate (spentAt E)) \<noteq> None"
    by auto
  then show ?thesis by (auto dest: map_of_SomeD)
qed

lemma logsByDay_unique:
  assumes "E \<in> set (logs w)"
  shows "\<exists>!kd. kd \<in> set (logsByDay w) \<and> E \<in> set (day_logs (snd kd))"
proof -
  from logsByDay_has [OF assms] obtain g where g: "(isoDate (spentAt E), g) \<in> set (logsByDay w)"
    by blast
  then have "day_logs g = dayLogs (logs w) (isoDate (spentAt E))" by (rule logsByDay_entry)
  with assms have Eg: "E \<in> set (day_logs g)" by (simp add: dayLogs_def)
  show ?thesis
  proof (rule ex1I [of _ "(isoDate (spentAt E), g)"])
    show "(isoDate (spentAt E), g) \<in> set (logsByDay w) \<and> E \<in> set (day_logs (snd (isoDate (spentAt E), g)))"
      using g Eg by simp
  next
    fix kd assume kd: "kd \<in> set (logsByDay w) \<and> E \<in> set (day_logs (snd kd))"
    then have "(fst kd, snd kd) \<in> set (logsByDay w)" by simp
    then have "day_logs (snd kd) = dayLogs (logs w) (fst kd)" by (rule logsByDay_entry)
    with kd have "fst kd = isoDate (spentAt E)" by (simp add: dayLogs_def)
    with kd g logsByDay_distinct [of w] show "kd = (isoDate (spentAt E), g)"
      by (metis eq_key_imp_eq_value prod.collapse)
  qed
qed

lemma logsByDay_key:
  "kd \<in> set (logsByDay w) \<Longrightarrow> E \<in> set (day_logs (snd kd)) \<Longrightarrow> fst kd = isoDate (spentAt E)"
  using logsByDay_entry [of "fst kd" "snd kd" w] by (simp add: dayLogs_def)

lemma logsByDay_subset:
  "kd \<in> set (logsByDay w) \<Longrightarrow> E \<in> set (day_logs (snd kd)) \<Longrightarrow> E \<in> set (logs w)"
  using logsByDay_entry [of "fst kd" "snd kd" w] by (simp add: dayLogs_def)

lemma set_sortedDays: "set (sortedDays w) = snd ` set (logsByDay w)"
  by (simp add: sortedDays_def)

lemma sortedDays_unique:
  assumes "E \<in> set (logs w)"
  shows "\<exists>!d. d \<in> set (sortedDays w) \<and> E \<in> set (day_logs d)"
proof -
  from logsByDay_unique [OF assms] obtain kd where
    kd: "kd \<in> set (logsByDay w)" "E \<in> set (day_logs (snd kd))"
    and u: "\<And>kd'. kd' \<in> set (logsByDay w) \<and> E \<in> set (day_logs (snd kd')) \<Longrightarrow> kd' = kd"
    by blast
  show ?thesis
  proof (rule ex1I [of _ "snd kd"])
    show "snd kd \<in> set (sortedDays w) \<and> E \<in> set (day_logs (snd kd))"
      using kd by (simp add: set_sortedDays)
  next
    fix d assume d: "d \<in> set (sortedDays w) \<and> E \<in> set (day_logs d)"
    then obtain kd' where "kd' \<in> set (logsByDay w)" "d = snd kd'"
      by (auto simp: set_sortedDays)
    with d u [of kd'] show "d = snd kd" by simp
  qed
qed

lemma sortedDays_subset:
  "d \<in> set (sortedDays w) \<Longrightarrow> E \<in> set (day_logs d) \<Longrightarrow> E \<in> set (logs w)"
  using logsByDay_subset by (auto simp: set_sortedDays)

subsection \<open>Where an entry ends up\<close>

lemma key_eq_iff:
  assumes "isWeekStart tz W"
  shows "getWeekKey tz t = isoDate W \<longleftrightarrow> weekStartOf tz t = W"
proof -
  from assms obtain w where "W = atLocalDay tz w" unfolding isWeekStart_iff by blast
  then show ?thesis by (simp add: getWeekKey_eq weekStartOf_def)
qed

lemma seeded_isWeekStart: "W \<in> set (seededWeekStarts tz clock ref) \<Longrightarrow> isWeekStart tz W"
  by (simp add: set_seededWeekStarts)

lemma result_buckets:
  "set (groupTimeLogsByWeek tz clock ls ref) = filledWeek tz ls ` set (seededWeekStarts tz clock ref)"
  by (simp add: groupTimeLogsByWeek_explicit)

lemma result_keys:
  "(\<lambda>w. isoDate (weekStart w)) ` set (groupTimeLogsByWeek tz clock ls ref)
     = isoDate ` set (seededWeekStarts tz clock ref)"
  by (force simp: result_buckets filledWeek_def image_iff)

lemma in_bucket_iff:
  assumes "W \<in> set (seededWeekStarts tz clock ref)"
  shows "E \<in> set (logs (filledWeek tz ls W)) \<longleftrightarrow> E \<in> set ls \<and> weekStartOf tz (spentAt E) = W"
  using key_eq_iff [OF seeded_isWeekStart [OF assms], of "spentAt E"]
  by (auto simp: filledWeek_def weekLogs_def)

lemma bucket_weekStart:
  assumes "w \<in> set (groupTimeLogsByWeek tz clock ls ref)" "E \<in> set (logs w)"
  shows "weekStart w = weekStartOf tz (spentAt E)"
proof -
  from assms(1) obtain W where W: "W \<in> set (seededWeekStarts tz clock ref)" "w = filledWeek tz ls W"
    by (auto simp: result_buckets)
  with assms(2) in_bucket_iff [OF W(1), of E ls] show ?thesis
    by (simp add: filledWeek_def)
qed

lemma bucket_unique:
  assumes E: "E \<in> set ls"
    and r: "\<exists>w \<in> set (groupTimeLogsByWeek tz clock ls ref).
              weekStart w \<le> spentAt E \<and> spentAt E < addDays (weekStart w) 7"
  shows "\<exists>!w. w \<in> set (groupTimeLogsByWeek tz clock ls ref) \<and> E \<in> set (logs w)"
proof -
  from r obtain w0 where w0: "w0 \<in> set (groupTimeLogsByWeek tz clock ls ref)"
      "weekStart w0 \<le> spentAt E" "spentAt E < addDays (weekStart w0) 7"
    by blast
  from w0(1) obtain W where W: "W \<in> set (seededWeekStarts tz clock ref)" "w0 = filledWeek tz ls W"
    by (auto simp: result_buckets)
  have ws: "weekStart w0 = W" using W(2) by (simp add: filledWeek_def)
  have "weekStartOf tz (spentAt E) = W"
    using weekStartOf_unique [OF seeded_isWeekStart [OF W(1)]] w0(2,3) ws by simp
  with E in_bucket_iff [OF W(1), of E ls] W(2) have in0: "E \<in> set (logs w0)" by simp
  show ?thesis
  proof (rule ex1I [of _ w0])
    show "w0 \<in> set (groupTimeLogsByWeek tz clock ls ref) \<and> E \<in> set (logs w0)"
      using w0(1) in0 by simp
  next
    fix w assume w: "w \<in> set (groupTimeLogsByWeek tz clock ls ref) \<and> E \<in> set (logs w)"
    then obtain V where V: "V \<in> set (seededWeekStarts tz clock ref)" "w = filledWeek tz ls V"
      by (auto simp: result_buckets)
    from w V in_bucket_iff [OF V(1), of E ls] have "weekStartOf tz (spentAt E) = V" by simp
    with \<open>weekStartOf tz (spentAt E) = W\<close> V(2) W(2) show "w = w0" by simp
  qed
qed

text \<open>
  C2. An entry of the list whose \<open>spentAt\<close> lies in the seven days of a bucket of the result
  is in the logs of exactly one bucket; that bucket starts at the local-midnight Monday of
  the entry's week; and among the day groups of that bucket exactly one holds the entry, the
  one keyed by the calendar date of \<open>spentAt\<close> as \<^verbatim>\<open>toISOString\<close> gives it.
\<close>

theorem entry_in_exactly_one_bucket:
  assumes "E \<in> set timeLogs"
    and "\<exists>w \<in> set (groupTimeLogsByWeek tz clock timeLogs ref).
           weekStart w \<le> spentAt E \<and> spentAt E < addDays (weekStart w) 7"
  shows "(\<exists>!w. w \<in> set (groupTimeLogsByWeek tz clock timeLogs ref) \<and> E \<in> set (logs w))
       \<and> (\<forall>w \<in> set (groupTimeLogsByWeek tz clock timeLogs ref). E \<in> set (logs w) \<longrightarrow>
             isWeekStart tz (weekStart w)
           \<and> weekStart w \<le> spentAt E \<and> spentAt E < addDays (weekStart w) 7
           \<and> (\<exists>!kd. kd \<in> set (logsByDay w) \<and> E \<in> set (day_logs (snd kd)))
           \<and> (\<forall>kd \<in> set (logsByDay w). E \<in> set (day_logs (snd kd))
                  \<longrightarrow> fst kd = isoDate (spentAt E))
           \<and> (\<exists>!d. d \<in> set (sortedDays w) \<and> E \<in> set (day_logs d)))"
proof (intro conjI ballI impI)
  show "\<exists>!w. w \<in> set (groupTimeLogsByWeek tz clock timeLogs ref) \<and> E \<in> set (logs w)"
    using assms by (rule bucket_unique)
next
  fix w assume w: "w \<in> set (groupTimeLogsByWeek tz clock timeLogs ref)" "E \<in> set (logs w)"
  from bucket_weekStart [OF w] have ws: "weekStart w = weekStartOf tz (spentAt E)" .
  show "isWeekStart tz (weekStart w)" unfolding ws by (rule isWeekStart_weekStartOf)
  show "weekStart w \<le> spentAt E" unfolding ws by (rule weekStartOf_bounds)
  show "spentAt E < addDays (weekStart w) 7" unfolding ws by (rule weekStartOf_bounds)
  show "\<exists>!kd. kd \<in> set (logsByDay w) \<and> E \<in> set (day_logs (snd kd))"
    using w(2) by (rule logsByDay_unique)
  show "\<exists>!d. d \<in> set (sortedDays w) \<and> E \<in> set (day_logs d)"
    using w(2) by (rule sortedDays_unique)
next
  fix w kd assume "kd \<in> set (logsByDay w)" "E \<in> set (day_logs (snd kd))"
  then show "fst kd = isoDate (spentAt E)" by (rule logsByDay_key)
qed

lemma march_result:
  "groupTimeLogsByWeek 0 1710936000000
     [\<lparr>log_id = ''a'', spentAt = 1709542800000, timeSpent = 3600\<rparr>,
      \<lparr>log_id = ''b'', spentAt = 1709560800000, timeSpent = 1800\<rparr>,
      \<lparr>log_id = ''c'', spentAt = 1711929600000, timeSpent = 60\<rparr>] 1709251200000
   = [\<lparr>weekStart = 1710720000000, logs = [], totalSeconds = 0\<rparr>,
      \<lparr>weekStart = 1710115200000, logs = [], totalSeconds = 0\<rparr>,
      \<lparr>weekStart = 1709510400000,
        logs = [\<lparr>log_id = ''a'', spentAt = 1709542800000, timeSpent = 3600\<rparr>,
                \<lparr>log_id = ''b'', spentAt = 1709560800000, timeSpent = 1800\<rparr>],
        totalSeconds = 5400\<rparr>,
      \<lparr>weekStart = 1708905600000, logs = [], totalSeconds = 0\<rparr>]"
  by code_simp

text \<open>
  March 2024 read on 20 March, with two entries on Monday 4 March and one on 1 April: the
  first entry lies in the week of 4 March and is in exactly one bucket.
\<close>

theorem entry_in_exactly_one_bucket_witness:
  "\<lparr>log_id = ''a'', spentAt = 1709542800000, timeSpent = 3600\<rparr>
     \<in> set [\<lparr>log_id = ''a'', spentAt = 1709542800000, timeSpent = 3600\<rparr>,
            \<lparr>log_id = ''b'', spentAt = 1709560800000, timeSpent = 1800\<rparr>,
            \<lparr>log_id = ''c'', spentAt = 1711929600000, timeSpent = 60\<rparr>]
   \<and> (\<exists>w \<in> set (groupTimeLogsByWeek 0 1710936000000
           [\<lparr>log_id = ''a'', spentAt = 1709542800000, timeSpent = 3600\<rparr>,
            \<lparr>log_id = ''b'', spentAt = 1709560800000, timeSpent = 1800\<rparr>,
            \<lparr>log_id = ''c'', spentAt = 1711929600000, timeSpent = 60\<rparr>] 1709251200000).
          weekStart w \<le> 1709542800000 \<and> 1709542800000 < addDays (weekStart w) 7)
   \<and> (\<exists>!w. w \<in> set (groupTimeLogsByWeek 0 1710936000000
           [\<lparr>log_id = ''a'', spentAt = 1709542800000, timeSpent = 3600\<rparr>,
            \<lparr>log_id = ''b'', spentAt = 1709560800000, timeSpent = 1800\<rparr>,
            \<lparr>log_id = ''c'', spentAt = 1711929600000, timeSpent = 60\<rparr>] 1709251200000)
          \<and> \<lparr>log_id = ''a'', spentAt = 1709542800000, timeSpent = 3600\<rparr> \<in> set (logs w))"
proof -
  let ?a = "\<lparr>log_id = ''a'', spentAt = 1709542800000, timeSpent = 3600\<rparr>"
  let ?ls = "[?a, \<lparr>log_id = ''b'', spentAt = 1709560800000, timeSpent = 1800\<rparr>,
            \<lparr>log_id = ''c'', spentAt = 1711929600000, timeSpent = 60\<rparr>]"
  have h1: "?a \<in> set ?ls" by simp
  have h2: "\<exists>w \<in> set (groupTimeLogsByWeek 0 1710936000000 ?ls 1709251200000).
          weekStart w \<le> spentAt ?a \<and> spentAt ?a < addDays (weekStart w) 7"
    unfolding march_result by (simp add: addDays_def msPerDay_def)
  from entry_in_exactly_one_bucket [OF h1 h2]
  have "\<exists>!w. w \<in> set (groupTimeLogsByWeek 0 1710936000000 ?ls 1709251200000) \<and> ?a \<in> set (logs w)"
    by (rule conjunct1)
  with h1 h2 show ?thesis by simp
qed

lemma filter_removeAll: "\<not> P E \<Longrightarrow> filter P (removeAll E ls) = filter P ls"
  by (induction ls) auto

text \<open>
  C3. An entry whose week key is not the key of a pre-seeded bucket is in no week bucket
  and in no day group of the result, and the whole result, the count included, is what it
  would be without the entry. The function is total: nothing is raised.
\<close>

theorem unseeded_entry_dropped:
  assumes "getWeekKey tz (spentAt E)
             \<notin> (\<lambda>w. isoDate (weekStart w)) ` set (groupTimeLogsByWeek tz clock [] ref)"
  shows "(\<forall>w \<in> set (groupTimeLogsByWeek tz clock timeLogs ref). E \<notin> set (logs w))
       \<and> (\<forall>w \<in> set (groupTimeLogsByWeek tz clock timeLogs ref).
             \<forall>d \<in> set (sortedDays w). E \<notin> set (day_logs d))
       \<and> groupTimeLogsByWeek_run tz clock timeLogs ref
           = groupTimeLogsByWeek_run tz clock (removeAll E timeLogs) ref"
proof -
  let ?xs = "seededWeekStarts tz clock ref"
  have key: "getWeekKey tz (spentAt E) \<notin> isoDate ` set ?xs"
    using assms unfolding result_keys .
  have a: "E \<notin> set (logs w)" if "w \<in> set (groupTimeLogsByWeek tz clock timeLogs ref)" for w
  proof -
    from that obtain W where W: "W \<in> set ?xs" "w = filledWeek tz timeLogs W"
      by (auto simp: result_buckets)
    with key show ?thesis by (auto simp: filledWeek_def weekLogs_def)
  qed
  have b: "E \<notin> set (day_logs d)"
    if "w \<in> set (groupTimeLogsByWeek tz clock timeLogs ref)" "d \<in> set (sortedDays w)" for w d
    using a [OF that(1)] sortedDays_subset [OF that(2)] by blast
  have "filledWeek tz timeLogs W = filledWeek tz (removeAll E timeLogs) W" if "W \<in> set ?xs" for W
  proof -
    from that key have "\<not> getWeekKey tz (spentAt E) = isoDate W" by auto
    then show ?thesis
      by (simp add: filledWeek_def weekLogs_def filter_removeAll)
  qed
  then have c1: "map (filledWeek tz timeLogs) ?xs = map (filledWeek tz (removeAll E timeLogs)) ?xs"
    by simp
  have c2: "filter (\<lambda>e. getWeekKey tz (spentAt e) \<in> isoDate ` set ?xs) (removeAll E timeLogs)
      = filter (\<lambda>e. getWeekKey tz (spentAt e) \<in> isoDate ` set ?xs) timeLogs"
    using key by (rule filter_removeAll)
  have c: "groupTimeLogsByWeek_run tz clock timeLogs ref
           = groupTimeLogsByWeek_run tz clock (removeAll E timeLogs) ref"
    by (simp only: groupTimeLogsByWeek_run_explicit c1 c2)
  from a b c show ?thesis by blast
qed

lemma march_seeded_keys:
  "map (\<lambda>w. isoDate (weekStart w)) (groupTimeLogsByWeek 0 1710936000000 [] 1709251200000)
     = [19800, 19793, 19786, 19779]"
  by code_simp

lemma april_key: "getWeekKey 0 1711929600000 = 19814"
  by code_simp

lemma march_run:
  "groupTimeLogsByWeek_run 0 1710936000000
     [\<lparr>log_id = ''a'', spentAt = 1709542800000, timeSpent = 3600\<rparr>,
      \<lparr>log_id = ''b'', spentAt = 1709560800000, timeSpent = 1800\<rparr>] 1709251200000
   = ([\<lparr>weekStart = 1710720000000, logs = [], totalSeconds = 0\<rparr>,
      \<lparr>weekStart = 1710115200000, logs = [], totalSeconds = 0\<rparr>,
      \<lparr>weekStart = 1709510400000,
        logs = [\<lparr>log_id = ''a'', spentAt = 1709542800000, timeSpent = 3600\<rparr>,
                \<lparr>log_id = ''b'', spentAt = 1709560800000, timeSpent = 1800\<rparr>],
        totalSeconds = 5400\<rparr>,
      \<lparr>weekStart = 1708905600000, logs = [], totalSeconds = 0\<rparr>], 2)"
  by code_simp

text \<open>
  In the same example the entry of 1 April has the week key of 1 April, which no seeded
  bucket has; the result is that of the two entries of 4 March alone, and two are counted.
\<close>

theorem unseeded_entry_dropped_witness:
  "getWeekKey 0 1711929600000
     \<notin> (\<lambda>w. isoDate (weekStart w)) ` set (groupTimeLogsByWeek 0 1710936000000 [] 1709251200000)
   \<and> groupTimeLogsByWeek_run 0 1710936000000
       [\<lparr>log_id = ''a'', spentAt = 1709542800000, timeSpent = 3600\<rparr>,
        \<lparr>log_id = ''b'', spentAt = 1709560800000, timeSpent = 1800\<rparr>,
        \<lparr>log_id = ''c'', spentAt = 1711929600000, timeSpent = 60\<rparr>] 1709251200000
     = ([\<lparr>weekStart = 1710720000000, logs = [], totalSeconds = 0\<rparr>,
         \<lparr>weekStart = 1710115200000, logs = [], totalSeconds = 0\<rparr>,
         \<lparr>weekStart = 1709510400000,
           logs = [\<lparr>log_id = ''a'', spentAt = 1709542800000, timeSpent = 3600\<rparr>,
                   \<lparr>log_id = ''b'', spentAt = 1709560800000, timeSpent = 1800\<rparr>],
           totalSeconds = 5400\<rparr>,
         \<lparr>weekStart = 1708905600000, logs = [], totalSeconds = 0\<rparr>], 2)"
proof -
  let ?c = "\<lparr>log_id = ''c'', spentAt = 1711929600000, timeSpent = 60\<rparr>"
  let ?ls = "[\<lparr>log_id = ''a'', spentAt = 1709542800000, timeSpent = 3600\<rparr>,
        \<lparr>log_id = ''b'', spentAt = 1709560800000, timeSpent = 1800\<rparr>, ?c]"
  have "set (map (\<lambda>w. isoDate (weekStart w)) (groupTimeLogsByWeek 0 1710936000000 [] 1709251200000))
     = {19800, 19793, 19786, 19779}"
    unfolding march_seeded_keys by simp
  then have h: "getWeekKey 0 (spentAt ?c)
     \<notin> (\<lambda>w. isoDate (weekStart w)) ` set (groupTimeLogsByWeek 0 1710936000000 [] 1709251200000)"
    by (simp add: april_key)
  from unseeded_entry_dropped [OF h, of ?ls]
  have "groupTimeLogsByWeek_run 0 1710936000000 ?ls 1709251200000
      = groupTimeLogsByWeek_run 0 1710936000000 (removeAll ?c ?ls) 1709251200000"
    by blast
  also have "removeAll ?c ?ls = [\<lparr>log_id = ''a'', spentAt = 1709542800000, timeSpent = 3600\<rparr>,
        \<lparr>log_id = ''b'', spentAt = 1709560800000, timeSpent = 1800\<rparr>]"
    by simp
  finally show ?thesis using h by (simp add: march_run)
qed


section \<open>Properties of keyed cache operations and of the delete flow\<close>

subsection \<open>Each keyed operation touches its own key\<close>

text \<open>
  Storing or clearing the issues of one project path leaves the issues cached under every
  other path as they were, and \<open>clearTimeLogs\<close> changes the cache of its own period only.
\<close>

lemma storeIssues_other_path:
  "p' \<noteq> p \<Longrightarrow> getIssues parse (storeIssues stringify ls p v) p' = getIssues parse ls p'"
  by (simp add: getIssues_read storeIssues_def getItem_setItem issuesKey_inj)

lemma clearIssues_other_path:
  "p' \<noteq> p \<Longrightarrow> getIssues parse (clearIssues ls p) p' = getIssues parse ls p'"
  by (simp add: getIssues_read clearIssues_def getItem_removeItem issuesKey_inj)

lemma clearTimeLogs_other_period:
  "m' \<noteq> m \<Longrightarrow> getTimeLogs parse (clearTimeLogs ls m) m' = getTimeLogs parse ls m'"
  by (simp add: getTimeLogs_read clearTimeLogs_def getItem_removeItem timelogsKey_inj)

lemma clearTimeLogs_keeps_projects:
  "getProjects parse (clearTimeLogs ls m) = getProjects parse ls"
  using timelogsKey_not_projects [of m]
  by (simp add: getProjects_read clearTimeLogs_def getItem_removeItem eq_commute)

lemma clearTimeLogs_clears: "getTimeLogs parse (clearTimeLogs ls m) m = Inr JNull"
  by (simp add: getTimeLogs_read clearTimeLogs_def getItem_removeItem readCached_def)

subsection \<open>What deleting a time log does to the cache\<close>

text \<open>
  \<open>handleDeleteTimelog\<close> hides the modal before it reads the date input, and hiding the modal
  resets that input to the empty text. The guard on the input's value therefore fails and
  \<open>clearTimeLogs\<close> is not reached: the handler returns the storage it was given.
\<close>

lemma handleDeleteTimelog_storage: "fst (handleDeleteTimelog tz deleted (ls, modal)) = ls"
  by (simp add: handleDeleteTimelog_def Let_def hideNewLogModal_def resetModalState_def
        split: option.splits)

text \<open>
  The text the modal shows for an entry of 4 March 2024, and the period keys the handlers
  would build from a date text: the text is read as UTC and the month taken in local time,
  so five hours west of Greenwich the first of March gives the key of February.
\<close>

lemma delete_modal_march:
  "openDeleteTimelogModal 0 \<lparr>newLogDate = [], currentTimelogId = None\<rparr>
          \<lparr>log_id = ''gid://gitlab/Timelog/1'', spentAt = 1709542800000, timeSpent = 3600\<rparr>
     = \<lparr>newLogDate = ''2024-03-04'', currentTimelogId = Some ''gid://gitlab/Timelog/1''\<rparr>"
  by code_simp

lemma periodKeyOf_examples:
  "periodKeyOf 0 ''2024-03-04'' = ''2024-03''"
  "periodKeyOf (- 300) ''2024-03-01'' = ''2024-02''"
  by code_simp+

text \<open>
  C7 at a failing input. The cache holds the entries of period \<^verbatim>\<open>2024-03\<close>; the delete modal
  is opened for an entry spent on 4 March 2024 and the deletion succeeds. The handler
  dispatches \<^verbatim>\<open>timeLogDeleted\<close> and leaves the storage as it was: the entries cached for
  \<^verbatim>\<open>2024-03\<close> are still returned.
\<close>

theorem handleDeleteTimelog_period_not_cleared:
  "handleDeleteTimelog 0 True
     ([(timelogsKey ''2024-03'', ''[1]'')],
      openDeleteTimelogModal 0 \<lparr>newLogDate = [], currentTimelogId = None\<rparr>
        \<lparr>log_id = ''gid://gitlab/Timelog/1'', spentAt = 1709542800000, timeSpent = 3600\<rparr>)
     = ([(timelogsKey ''2024-03'', ''[1]'')],
        \<lparr>newLogDate = [], currentTimelogId = None\<rparr>, Some ''timeLogDeleted'')
   \<and> getTimeLogs sample_parse
        (fst (handleDeleteTimelog 0 True
           ([(timelogsKey ''2024-03'', ''[1]'')],
            openDeleteTimelogModal 0 \<lparr>newLogDate = [], currentTimelogId = None\<rparr>
              \<lparr>log_id = ''gid://gitlab/Timelog/1'', spentAt = 1709542800000, timeSpent = 3600\<rparr>)))
        ''2024-03''
     = Inr (JArr [JNum 1])"
  unfolding delete_modal_march
  by (simp add: handleDeleteTimelog_def Let_def hideNewLogModal_def resetModalState_def
        getTimeLogs_read getItem_def readCached_def sample_parse_def js_or_def)

end
